(* ===== verification/Sudoku_Prelude.thy ===== *)
theory Sudoku_Prelude
  imports Main "HOL-Library.Monad_Syntax"
begin

text \<open>
  Shared vocabulary of the Sudoku development. The C++ board is a
  \<open>std::vector<std::vector<int>>\<close>; it is modelled as \<open>int list list\<close>
  (\<open>grid\<close>), indexed row first. A cell position is a pair of \<open>nat\<close> indices.
  The collection \<open>grid_simps\<close> gathers the facts about nested list updates and the
  index domain that every component proof uses; \<open>cells\<close> is the row-major order
  in which every nested \<open>for (i = 0; i < 9; i++) for (j = 0; j < 9; j++)\<close> loop
  of the sources visits the board.
\<close>

type_synonym grid = "int list list"
type_synonym cell = "nat \<times> nat"

named_theorems grid_simps "index and update facts on 9x9 grids"

definition cells :: "cell list" where
  "cells = [(i, j). i \<leftarrow> [0..<9], j \<leftarrow> [0..<9]]"

definition digits :: "int list" where
  "digits = [1..9]"

lemma mem_cells [simp, grid_simps]: "((i, j) \<in> set cells) = (i < 9 \<and> j < 9)"
  by (auto simp: cells_def image_iff)

lemma mem_cells_pair [grid_simps]: "(x \<in> set cells) = (fst x < 9 \<and> snd x < 9)"
  by (cases x) simp

lemma distinct_cells [simp, grid_simps]: "distinct cells"
  by code_simp

lemma length_cells [simp]: "length cells = 81"
  by code_simp

lemma set_digits [simp, grid_simps]: "set digits = {1..9}"
  by (simp add: digits_def)

lemma list_all_upt [grid_simps]: "list_all P [0..<n] = (\<forall>i<n. P i)"
  by (auto simp: list_all_iff)

lemma list_all_cells [grid_simps]:
  "list_all (\<lambda>(i, j). P i j) cells = (\<forall>i<9. \<forall>j<9. P i j)"
  by (auto simp: list_all_iff)

subsection \<open>Nested list updates\<close>

lemma nth_nested_update [grid_simps]:
  "i < length xs \<Longrightarrow>
   xs[r := (xs ! r)[c := v]] ! i ! j =
     (if i = r \<and> j = c \<and> c < length (xs ! r) then v else xs ! i ! j)"
  by (cases "i = r") (auto simp: nth_list_update list_update_beyond)

lemma length_nested_update [simp, grid_simps]:
  "length (xs[r := (xs ! r)[c := v]]) = length xs"
  by simp

lemma nested_update_same [grid_simps]:
  "xs[r := (xs ! r)[c := xs ! r ! c]] = xs"
  by simp

lemma nested_update_twice [grid_simps]:
  "xs[r := (xs[r := (xs ! r)[c := v]] ! r)[c := w]] = xs[r := (xs ! r)[c := w]]"
  by (cases "r < length xs") (simp_all add: list_update_beyond)

subsection \<open>Counting\<close>

lemma length_filter_mono_le:
  "(\<And>x. x \<in> set xs \<Longrightarrow> Q x \<Longrightarrow> P x) \<Longrightarrow> length (filter Q xs) \<le> length (filter P xs)"
  by (induction xs) auto

lemma length_filter_less_mono:
  assumes "\<And>x. x \<in> set xs \<Longrightarrow> Q x \<Longrightarrow> P x"
    and "y \<in> set xs" and "P y" and "\<not> Q y"
  shows "length (filter Q xs) < length (filter P xs)"
  using assms
proof (induction xs)
  case Nil
  then show ?case by simp
next
  case (Cons x xs)
  have mono: "length (filter Q xs) \<le> length (filter P xs)"
    using Cons.prems(1) by (intro length_filter_mono_le) auto
  show ?case
  proof (cases "y = x")
    case True
    with Cons.prems mono show ?thesis by auto
  next
    case False
    with Cons have "length (filter Q xs) < length (filter P xs)" by auto
    with Cons.prems(1) show ?thesis by auto
  qed
qed

lemma distinct_concat_map:
  assumes "distinct xs" "\<And>x. x \<in> set xs \<Longrightarrow> distinct (f x)"
    and "\<And>x y. x \<in> set xs \<Longrightarrow> y \<in> set xs \<Longrightarrow> x \<noteq> y \<Longrightarrow> set (f x) \<inter> set (f y) = {}"
  shows "distinct (concat (map f xs))"
  using assms
proof (induction xs)
  case Nil
  then show ?case by simp
next
  case (Cons a xs)
  then have "distinct (concat (map f xs))" by simp
  moreover have "set (f a) \<inter> set (concat (map f xs)) = {}"
    using Cons.prems(1,3) by fastforce
  ultimately show ?case using Cons.prems(2) by simp
qed

lemma find_SomeD: "find P xs = Some x \<Longrightarrow> x \<in> set xs \<and> P x"
  by (auto simp: find_Some_iff)

lemma distinct_length_one_iff:
  assumes "distinct xs"
  shows "(length xs = 1) = (\<exists>!x. x \<in> set xs)"
proof
  assume "length xs = 1"
  then obtain a where "xs = [a]" by (cases xs) auto
  then show "\<exists>!x. x \<in> set xs" by auto
next
  assume "\<exists>!x. x \<in> set xs"
  then obtain a where "set xs = {a}" by blast
  with assms show "length xs = 1" using distinct_card [of xs] by simp
qed

end
