(* ===== verification/Board.thy ===== *)
theory Board
  imports Sudoku_Prelude
begin

text \<open>
  The class \<open>SudokuBoard\<close> (src/Sudoku/include/SudokuBoard.hpp,
  src/Sudoku/src/SudokuBoard.cpp). Its only field, \<open>board\<close>, is the grid itself,
  so every mutating method is a function from the old grid to the new one. Coordinates
  and values are C++ \<open>int\<close>s in the public methods (so that the range checks of
  \<open>isValidMove\<close> and \<open>getValue\<close> are visible); the private helpers are only ever
  called with in-range indices and take \<open>nat\<close>s. \<open>getBoard()[r][c] = v\<close>, the raw
  write that the solver, the generator and the propagation solver use to bypass
  validation, is \<open>set_cell\<close>. Well-formedness \<open>wf_grid\<close> (nine rows of nine cells)
  is the shape invariant that makes every index of the C++ code defined.
\<close>

definition sudoku_board :: grid where
  "sudoku_board = replicate 9 (replicate 9 0)"

definition wf_grid :: "grid \<Rightarrow> bool" where
  "wf_grid b = (length b = 9 \<and> list_all (\<lambda>row. length row = 9) b)"

definition initialize_board :: "grid \<Rightarrow> int list list \<Rightarrow> grid" where
  "initialize_board b initial =
     (if length initial = 9 \<and> length (initial ! 0) = 9 then initial else b)"

definition set_cell :: "grid \<Rightarrow> nat \<Rightarrow> nat \<Rightarrow> int \<Rightarrow> grid" where
  "set_cell b r c v = b[r := (b ! r)[c := v]]"

definition is_valid_in_row :: "grid \<Rightarrow> nat \<Rightarrow> int \<Rightarrow> bool" where
  "is_valid_in_row b row v = list_all (\<lambda>col. b ! row ! col \<noteq> v) [0..<9]"

definition is_valid_in_column :: "grid \<Rightarrow> nat \<Rightarrow> int \<Rightarrow> bool" where
  "is_valid_in_column b col v = list_all (\<lambda>row. b ! row ! col \<noteq> v) [0..<9]"

definition is_valid_in_box :: "grid \<Rightarrow> nat \<Rightarrow> nat \<Rightarrow> int \<Rightarrow> bool" where
  "is_valid_in_box b start_row start_col v =
     list_all (\<lambda>i. list_all (\<lambda>j. b ! (start_row + i) ! (start_col + j) \<noteq> v) [0..<3]) [0..<3]"

definition is_valid_move :: "grid \<Rightarrow> int \<Rightarrow> int \<Rightarrow> int \<Rightarrow> bool" where
  "is_valid_move b row col v =
     (if row < 0 \<or> 9 \<le> row \<or> col < 0 \<or> 9 \<le> col then False
      else if v < 1 \<or> 9 < v then False
      else if b ! nat row ! nat col \<noteq> 0 then False
      else is_valid_in_row b (nat row) v \<and> is_valid_in_column b (nat col) v \<and>
           is_valid_in_box b (nat row div 3 * 3) (nat col div 3 * 3) v)"

definition set_value :: "grid \<Rightarrow> int \<Rightarrow> int \<Rightarrow> int \<Rightarrow> bool \<times> grid" where
  "set_value b row col v =
     (if is_valid_move b row col v then (True, set_cell b (nat row) (nat col) v) else (False, b))"

definition get_value :: "grid \<Rightarrow> int \<Rightarrow> int \<Rightarrow> int" where
  "get_value b row col =
     (if 0 \<le> row \<and> row < 9 \<and> 0 \<le> col \<and> col < 9 then b ! nat row ! nat col else -1)"

definition is_empty :: "grid \<Rightarrow> int \<Rightarrow> int \<Rightarrow> bool" where
  "is_empty b row col = (get_value b row col = 0)"

definition is_full :: "grid \<Rightarrow> bool" where
  "is_full b = list_all (\<lambda>i. list_all (\<lambda>j. b ! i ! j \<noteq> 0) [0..<9]) [0..<9]"

definition clear :: "grid \<Rightarrow> grid" where
  "clear b = fold (\<lambda>(i, j) g. set_cell g i j 0) cells b"

text \<open>
  Two specification helpers: the unit relation of the Sudoku rules (same row, same
  column, or same 3x3 box) and the number of empty cells, the measure that every
  search of the development decreases.
\<close>

definition same_unit :: "cell \<Rightarrow> cell \<Rightarrow> bool" where
  "same_unit p q = (fst p = fst q \<or> snd p = snd q \<or>
                    (fst p div 3 = fst q div 3 \<and> snd p div 3 = snd q div 3))"

definition count_empty :: "grid \<Rightarrow> nat" where
  "count_empty b = length (filter (\<lambda>(i, j). b ! i ! j = 0) cells)"

subsection \<open>Shape and cell access\<close>

lemma wf_grid_iff [grid_simps]:
  "wf_grid b = (length b = 9 \<and> (\<forall>i<9. length (b ! i) = 9))"
  by (auto simp: wf_grid_def list_all_length)

lemma wf_sudoku_board: "wf_grid sudoku_board"
  by (simp add: wf_grid_iff sudoku_board_def)

lemma nth_set_cell [grid_simps]:
  "wf_grid b \<Longrightarrow> i < 9 \<Longrightarrow> r < 9 \<Longrightarrow> c < 9 \<Longrightarrow>
   set_cell b r c v ! i ! j = (if i = r \<and> j = c then v else b ! i ! j)"
  by (simp add: set_cell_def nth_nested_update wf_grid_iff)

lemma wf_set_cell [grid_simps]: "wf_grid b \<Longrightarrow> wf_grid (set_cell b r c v)"
  by (cases "r < 9") (auto simp: wf_grid_iff set_cell_def nth_list_update list_update_beyond)

lemma set_cell_same [grid_simps]: "set_cell b r c (b ! r ! c) = b"
  by (simp add: set_cell_def)

lemma set_cell_twice [grid_simps]: "set_cell (set_cell b r c v) r c w = set_cell b r c w"
  by (simp add: set_cell_def nested_update_twice)

lemma set_cell_restore [grid_simps]:
  "b ! r ! c = w \<Longrightarrow> set_cell (set_cell b r c v) r c w = b"
  by (metis set_cell_twice set_cell_same)

lemma grid_eqI:
  assumes "wf_grid a" "wf_grid b" "\<And>i j. i < 9 \<Longrightarrow> j < 9 \<Longrightarrow> a ! i ! j = b ! i ! j"
  shows "a = b"
proof (rule nth_equalityI)
  show "length a = length b" using assms(1,2) by (simp add: wf_grid_iff)
next
  fix i assume "i < length a"
  with assms show "a ! i = b ! i"
    by (auto simp: wf_grid_iff intro: nth_equalityI)
qed

subsection \<open>The validity check\<close>

lemma same_unit_sym: "same_unit p q = same_unit q p"
  by (auto simp: same_unit_def)

lemma box_index: "(k div 3 = r div (3::nat)) = (\<exists>i<3. k = r div 3 * 3 + i)"
proof
  assume "k div 3 = r div 3"
  then have "k = r div 3 * 3 + k mod 3" by (metis div_mult_mod_eq)
  then show "\<exists>i<3. k = r div 3 * 3 + i" by (intro exI [of _ "k mod 3"]) simp
qed auto

lemma box_start_bound: "r < 9 \<Longrightarrow> i < 3 \<Longrightarrow> r div 3 * 3 + i < (9::nat)"
  by presburger

lemma box_cells_iff:
  fixes r c :: nat
  assumes "r < 9" "c < 9"
  shows "(\<forall>k<9. \<forall>l<9. k div 3 = r div 3 \<and> l div 3 = c div 3 \<longrightarrow> P k l) =
         (\<forall>i<3. \<forall>j<3. P (r div 3 * 3 + i) (c div 3 * 3 + j))"
proof
  assume "\<forall>k<9. \<forall>l<9. k div 3 = r div 3 \<and> l div 3 = c div 3 \<longrightarrow> P k l"
  then show "\<forall>i<3. \<forall>j<3. P (r div 3 * 3 + i) (c div 3 * 3 + j)"
    using assms by (simp add: box_start_bound)
next
  assume "\<forall>i<3. \<forall>j<3. P (r div 3 * 3 + i) (c div 3 * 3 + j)"
  then show "\<forall>k<9. \<forall>l<9. k div 3 = r div 3 \<and> l div 3 = c div 3 \<longrightarrow> P k l"
    by (auto simp: box_index)
qed

lemma unit_cells_iff:
  fixes r c :: nat
  assumes "r < 9" "c < 9"
  shows "(\<forall>k<9. \<forall>l<9. same_unit (r, c) (k, l) \<longrightarrow> b ! k ! l \<noteq> v) =
         (is_valid_in_row b r v \<and> is_valid_in_column b c v \<and>
          is_valid_in_box b (r div 3 * 3) (c div 3 * 3) v)"
proof -
  have "(\<forall>k<9. \<forall>l<9. same_unit (r, c) (k, l) \<longrightarrow> b ! k ! l \<noteq> v) =
        ((\<forall>l<9. b ! r ! l \<noteq> v) \<and> (\<forall>k<9. b ! k ! c \<noteq> v) \<and>
         (\<forall>k<9. \<forall>l<9. k div 3 = r div 3 \<and> l div 3 = c div 3 \<longrightarrow> b ! k ! l \<noteq> v))"
    (is "?A = ?B")
  proof
    assume ?A
    then show ?B using assms unfolding same_unit_def by simp
  next
    assume B: ?B
    show ?A
    proof (intro allI impI)
      fix k l assume "k < 9" "l < 9" "same_unit (r, c) (k, l)"
      with B show "b ! k ! l \<noteq> v" unfolding same_unit_def by (metis fst_conv snd_conv)
    qed
  qed
  then show ?thesis
    using assms
    by (simp add: box_cells_iff is_valid_in_row_def is_valid_in_column_def
                  is_valid_in_box_def list_all_upt)
qed

text \<open>
  \<open>isValidMove\<close> in terms of the Sudoku rules: the target is an empty in-range cell,
  the value a digit, and no cell of the target's row, column or box holds it.
\<close>

lemma valid_move_iff:
  "is_valid_move b (int r) (int c) v =
     (r < 9 \<and> c < 9 \<and> 1 \<le> v \<and> v \<le> 9 \<and> b ! r ! c = 0 \<and>
      (\<forall>k<9. \<forall>l<9. same_unit (r, c) (k, l) \<longrightarrow> b ! k ! l \<noteq> v))"
proof (cases "r < 9 \<and> c < 9")
  case True
  then show ?thesis by (simp add: is_valid_move_def unit_cells_iff not_less)
next
  case False
  then show ?thesis by (auto simp: is_valid_move_def)
qed

lemma valid_move_range:
  "is_valid_move b row col v \<Longrightarrow>
   0 \<le> row \<and> row < 9 \<and> 0 \<le> col \<and> col < 9 \<and> 1 \<le> v \<and> v \<le> 9 \<and> b ! nat row ! nat col = 0"
  by (auto simp: is_valid_move_def split: if_splits)

lemma valid_move_nat:
  "is_valid_move b row col v \<Longrightarrow> is_valid_move b (int (nat row)) (int (nat col)) v"
  by (auto dest: valid_move_range)

subsection \<open>Emptiness and fullness\<close>

lemma get_value_nat [grid_simps]:
  "r < 9 \<Longrightarrow> c < 9 \<Longrightarrow> get_value b (int r) (int c) = b ! r ! c"
  by (simp add: get_value_def)

lemma is_empty_nat [grid_simps]:
  "r < 9 \<Longrightarrow> c < 9 \<Longrightarrow> is_empty b (int r) (int c) = (b ! r ! c = 0)"
  by (simp add: is_empty_def get_value_nat)

lemma is_full_iff: "is_full b = (\<forall>i<9. \<forall>j<9. b ! i ! j \<noteq> 0)"
  by (simp add: is_full_def list_all_upt)

lemma count_empty_zero_iff: "(count_empty b = 0) = is_full b"
  by (auto simp: count_empty_def is_full_iff filter_empty_conv)

lemma count_empty_set_cell_less:
  assumes "wf_grid b" "r < 9" "c < 9" "b ! r ! c = 0" "v \<noteq> 0"
  shows "count_empty (set_cell b r c v) < count_empty b"
  unfolding count_empty_def
proof (rule length_filter_less_mono [where y = "(r, c)"])
  fix x assume "x \<in> set cells" "(\<lambda>(i, j). set_cell b r c v ! i ! j = 0) x"
  with assms show "(\<lambda>(i, j). b ! i ! j = 0) x"
    by (cases x) (auto simp: nth_set_cell split: if_splits)
qed (use assms in \<open>simp_all add: nth_set_cell\<close>)

lemma valid_move_count_empty:
  "wf_grid b \<Longrightarrow> is_valid_move b (int r) (int c) v \<Longrightarrow>
   count_empty (set_cell b r c v) < count_empty b"
  by (auto simp: valid_move_iff intro: count_empty_set_cell_less)

subsection \<open>clear\<close>

lemma fold_set_nth:
  "wf_grid g \<Longrightarrow> set xs \<subseteq> set cells \<Longrightarrow> i < 9 \<Longrightarrow> j < 9 \<Longrightarrow>
   fold (\<lambda>(i, j) g. set_cell g i j (f i j)) xs g ! i ! j = (if (i, j) \<in> set xs then f i j else g ! i ! j)"
  and wf_fold_set: "wf_grid g \<Longrightarrow> wf_grid (fold (\<lambda>(i, j) g. set_cell g i j (f i j)) xs g)"
proof (induction xs arbitrary: g)
  case Nil
  { case 1 then show ?case by simp }
  { case 2 then show ?case by simp }
next
  case (Cons x xs)
  { case 1 then show ?case
      using Cons.IH(1) [of "set_cell g (fst x) (snd x) (f (fst x) (snd x))"]
      by (cases x) (auto simp: wf_set_cell nth_set_cell) }
  { case 2 then show ?case
      using Cons.IH(2) by (cases x) (simp add: wf_set_cell) }
qed

lemmas fold_clear_nth = fold_set_nth [where f = "\<lambda>_ _. 0"]
lemmas wf_fold_clear = wf_fold_set [where f = "\<lambda>_ _. 0"]

subsection \<open>Counting empty cells\<close>

lemma count_empty_card:
  "count_empty b = card {(i, j). i < 9 \<and> j < 9 \<and> b ! i ! j = 0}"
proof -
  have "count_empty b = card (set (filter (\<lambda>(i, j). b ! i ! j = 0) cells))"
    unfolding count_empty_def by (rule distinct_card [symmetric]) simp
  also have "set (filter (\<lambda>(i, j). b ! i ! j = 0) cells) = {(i, j). i < 9 \<and> j < 9 \<and> b ! i ! j = 0}"
    by auto
  finally show ?thesis .
qed

lemma count_empty_clear_cell:
  assumes wf: "wf_grid b" and rc: "r < 9" "c < 9"
  shows "count_empty (set_cell b r c 0) \<le> Suc (count_empty b)"
proof -
  let ?E = "\<lambda>g. {(i, j). i < 9 \<and> j < 9 \<and> g ! i ! j = (0::int)}"
  have sub: "?E (set_cell b r c 0) \<subseteq> insert (r, c) (?E b)"
  proof
    fix x assume x: "x \<in> ?E (set_cell b r c 0)"
    obtain i j where ij: "x = (i, j)" by fastforce
    with x have "i < 9" "j < 9" "set_cell b r c 0 ! i ! j = 0" by simp_all
    with wf rc ij show "x \<in> insert (r, c) (?E b)"
      by (cases "i = r \<and> j = c") (simp_all add: nth_set_cell)
  qed
  have fin: "finite (?E b)"
    by (rule finite_subset [of _ "{..<9} \<times> {..<9}"]) auto
  have "card (?E (set_cell b r c 0)) \<le> card (insert (r, c) (?E b))"
    using sub fin by (intro card_mono) simp_all
  also have "\<dots> \<le> Suc (card (?E b))" using fin by (simp add: card_insert_if)
  finally show ?thesis by (simp add: count_empty_card)
qed

subsection \<open>Properties of the board operations\<close>

text \<open>C27: setValue writes exactly when isValidMove holds; it then changes only the
  target cell, to the given value, and otherwise leaves the board untouched (it never
  partially applies). The board keeps its shape either way.\<close>

theorem set_value_effect:
  "wf_grid b \<Longrightarrow> set_value b row col v = (ok, b') \<Longrightarrow>
   ok = is_valid_move b row col v \<and> wf_grid b' \<and>
   (ok \<longrightarrow> b' ! nat row ! nat col = v \<and>
          (\<forall>i<9. \<forall>j<9. (i, j) \<noteq> (nat row, nat col) \<longrightarrow> b' ! i ! j = b ! i ! j)) \<and>
   (\<not> ok \<longrightarrow> b' = b)"
proof -
  assume wf: "wf_grid b" and sv: "set_value b row col v = (ok, b')"
  show ?thesis
  proof (cases "is_valid_move b row col v")
    case True
    then have r: "nat row < 9" "nat col < 9" by (auto dest: valid_move_range)
    from True sv have "ok" "b' = set_cell b (nat row) (nat col) v" by (auto simp: set_value_def)
    with True wf r show ?thesis by (simp add: nth_set_cell wf_set_cell)
  next
    case False
    with sv wf show ?thesis by (auto simp: set_value_def)
  qed
qed

theorem set_value_effect_witness:
  "wf_grid sudoku_board \<and> set_value sudoku_board 0 0 5 = (True, set_cell sudoku_board 0 0 5) \<and>
   is_valid_move sudoku_board 0 0 5 \<and> wf_grid (set_cell sudoku_board 0 0 5) \<and>
   set_cell sudoku_board 0 0 5 ! 0 ! 0 = 5 \<and>
   set_cell sudoku_board 0 0 5 ! 3 ! 4 = sudoku_board ! 3 ! 4"
proof -
  have sv: "set_value sudoku_board 0 0 5 = (True, set_cell sudoku_board 0 0 5)" by code_simp
  from set_value_effect [OF wf_sudoku_board sv]
  have "is_valid_move sudoku_board 0 0 5" "wf_grid (set_cell sudoku_board 0 0 5)"
    "set_cell sudoku_board 0 0 5 ! 0 ! 0 = 5"
    "set_cell sudoku_board 0 0 5 ! 3 ! 4 = sudoku_board ! 3 ! 4"
    by auto
  with wf_sudoku_board sv show ?thesis by blast
qed

text \<open>C28: clear sets every cell of a well-formed board to 0: the result is the board
  the constructor builds.\<close>

theorem clear_result: "wf_grid b \<Longrightarrow> clear b = sudoku_board"
proof (rule grid_eqI)
  assume "wf_grid b"
  then show "wf_grid (clear b)" by (simp add: clear_def wf_fold_clear)
  show "wf_grid sudoku_board" by (rule wf_sudoku_board)
  fix i j :: nat assume "i < 9" "j < 9"
  with \<open>wf_grid b\<close> show "clear b ! i ! j = sudoku_board ! i ! j"
    by (simp add: clear_def fold_clear_nth sudoku_board_def)
qed

theorem clear_result_witness:
  "wf_grid (set_cell sudoku_board 4 4 7) \<and> clear (set_cell sudoku_board 4 4 7) = sudoku_board"
proof -
  have wf: "wf_grid (set_cell sudoku_board 4 4 7)" by (rule wf_set_cell [OF wf_sudoku_board])
  show ?thesis using clear_result [OF wf] wf by simp
qed

end
