(* ===== verification/Search.thy ===== *)
theory Search
  imports Board
begin

text \<open>
  The abstract specification that the two recursive searches of the sources
  (\<open>SudokuSolver::solveRecursive\<close> and \<open>SudokuGenerator::countSolutions\<close>) implement.
  A \<^emph>\<open>completion\<close> of a grid \<open>b\<close> is a well-formed grid \<open>s\<close> that keeps every
  filled cell of \<open>b\<close> and puts into every empty cell of \<open>b\<close> a digit that no other
  cell of its row, column or box holds in \<open>s\<close>. \<open>solutions b\<close> enumerates the
  completions in the order of the code's search: first empty cell in row-major order,
  digits 1 to 9 in ascending order. It is defined by well-founded recursion on the
  number of empty cells, so it is total; the searches of the sources are proved equal
  to it in the theories \<open>Solver\<close> and \<open>Counter\<close>.
\<close>

definition first_empty :: "grid \<Rightarrow> cell option" where
  "first_empty b = find (\<lambda>(i, j). b ! i ! j = 0) cells"

definition cell_consistent :: "grid \<Rightarrow> nat \<Rightarrow> nat \<Rightarrow> bool" where
  "cell_consistent s i j =
     (1 \<le> s ! i ! j \<and> s ! i ! j \<le> 9 \<and>
      list_all (\<lambda>(k, l). if (k, l) \<noteq> (i, j) \<and> same_unit (i, j) (k, l)
                         then s ! k ! l \<noteq> s ! i ! j else True) cells)"

definition is_completion :: "grid \<Rightarrow> grid \<Rightarrow> bool" where
  "is_completion b s =
     (wf_grid s \<and>
      list_all (\<lambda>(i, j). if b ! i ! j = 0 then cell_consistent s i j else s ! i ! j = b ! i ! j) cells)"

definition sudoku_solved :: "grid \<Rightarrow> bool" where
  "sudoku_solved s = (wf_grid s \<and> list_all (\<lambda>(i, j). cell_consistent s i j) cells)"

function solutions :: "grid \<Rightarrow> grid list" where
  "solutions b =
     (if wf_grid b then
        (case first_empty b of
           None \<Rightarrow> [b]
         | Some (r, c) \<Rightarrow>
             concat (map (\<lambda>n. if is_valid_move b (int r) (int c) n
                               then solutions (set_cell b r c n) else []) digits))
      else [])"
  by pat_completeness auto
termination
  by (relation "measure count_empty") (auto intro: valid_move_count_empty)

declare solutions.simps [simp del]

definition search_outcome :: "grid \<Rightarrow> grid list \<Rightarrow> bool \<times> grid" where
  "search_outcome b xs = (case xs of [] \<Rightarrow> (False, b) | s # _ \<Rightarrow> (True, s))"

definition search_branch :: "grid \<Rightarrow> nat \<Rightarrow> nat \<Rightarrow> int list \<Rightarrow> grid list" where
  "search_branch b r c ns =
     concat (map (\<lambda>n. if is_valid_move b (int r) (int c) n then solutions (set_cell b r c n) else []) ns)"

subsection \<open>The first empty cell\<close>

lemma first_empty_Some:
  "first_empty b = Some (r, c) \<Longrightarrow> r < 9 \<and> c < 9 \<and> b ! r ! c = 0"
  unfolding first_empty_def by (auto dest!: find_SomeD)

lemma first_empty_None: "(first_empty b = None) = is_full b"
  by (auto simp: first_empty_def find_None_iff is_full_iff)

lemma solutions_unfold:
  "wf_grid b \<Longrightarrow>
   solutions b = (case first_empty b of None \<Rightarrow> [b] | Some (r, c) \<Rightarrow> search_branch b r c digits)"
  unfolding search_branch_def by (simp add: solutions.simps [of b])

subsection \<open>Completions\<close>

lemma cell_consistent_iff:
  "cell_consistent s i j =
     (1 \<le> s ! i ! j \<and> s ! i ! j \<le> 9 \<and>
      (\<forall>k<9. \<forall>l<9. (k, l) \<noteq> (i, j) \<and> same_unit (i, j) (k, l) \<longrightarrow> s ! k ! l \<noteq> s ! i ! j))"
  by (auto simp: cell_consistent_def list_all_cells)

lemma is_completion_iff:
  "is_completion b s =
     (wf_grid s \<and> (\<forall>i<9. \<forall>j<9. if b ! i ! j = 0 then cell_consistent s i j else s ! i ! j = b ! i ! j))"
  by (simp add: is_completion_def list_all_cells)

lemma completion_full:
  assumes "wf_grid b" "is_full b"
  shows "is_completion b s = (s = b)"
proof
  assume "is_completion b s"
  with assms show "s = b"
    by (intro grid_eqI) (auto simp: is_completion_iff is_full_iff)
next
  assume "s = b"
  with assms show "is_completion b s" by (simp add: is_completion_iff is_full_iff)
qed

lemma completion_set_cell_value:
  assumes "is_completion (set_cell b r c n) s" "wf_grid b" "r < 9" "c < 9" "n \<noteq> 0"
  shows "s ! r ! c = n"
  using assms by (auto simp: is_completion_iff nth_set_cell)

lemma completion_step:
  assumes wf: "wf_grid b" and rc: "r < 9" "c < 9" "b ! r ! c = 0"
  shows "is_completion b s =
         (is_valid_move b (int r) (int c) (s ! r ! c) \<and> is_completion (set_cell b r c (s ! r ! c)) s)"
    (is "?L = (?V \<and> ?C)")
proof
  assume L: ?L
  then have wfs: "wf_grid s"
    and cells: "\<And>i j. i < 9 \<Longrightarrow> j < 9 \<Longrightarrow>
                  (if b ! i ! j = 0 then cell_consistent s i j else s ! i ! j = b ! i ! j)"
    by (auto simp: is_completion_iff)
  from cells [OF rc(1,2)] rc(3) have cc: "cell_consistent s r c" by simp
  have V: ?V
    unfolding valid_move_iff
  proof (intro conjI allI impI)
    show "1 \<le> s ! r ! c" "s ! r ! c \<le> 9" using cc by (auto simp: cell_consistent_iff)
    fix k l assume kl: "k < 9" "l < 9" "same_unit (r, c) (k, l)"
    show "b ! k ! l \<noteq> s ! r ! c"
    proof (cases "(k, l) = (r, c)")
      case True
      with rc(3) cc show ?thesis by (auto simp: cell_consistent_iff)
    next
      case False
      show ?thesis
      proof (cases "b ! k ! l = 0")
        case True
        with cc show ?thesis by (auto simp: cell_consistent_iff)
      next
        case nz: False
        with cells [OF kl(1,2)] have "s ! k ! l = b ! k ! l" by simp
        with False kl cc show ?thesis by (auto simp: cell_consistent_iff)
      qed
    qed
  qed (use rc in auto)
  have C: ?C
    unfolding is_completion_iff
  proof (intro conjI allI impI wfs)
    fix i j :: nat assume ij: "i < 9" "j < 9"
    show "if set_cell b r c (s ! r ! c) ! i ! j = 0 then cell_consistent s i j
          else s ! i ! j = set_cell b r c (s ! r ! c) ! i ! j"
      using cells [OF ij] cc ij wf rc by (auto simp: nth_set_cell cell_consistent_iff)
  qed
  from V C show "?V \<and> ?C" ..
next
  assume R: "?V \<and> ?C"
  let ?v = "s ! r ! c"
  from R have V: ?V and wfs: "wf_grid s"
    and cells: "\<And>i j. i < 9 \<Longrightarrow> j < 9 \<Longrightarrow>
       (if set_cell b r c ?v ! i ! j = 0 then cell_consistent s i j
        else s ! i ! j = set_cell b r c ?v ! i ! j)"
    by (auto simp: is_completion_iff)
  from V have vd: "1 \<le> ?v" "?v \<le> 9"
    and vpeer: "\<And>k l. k < 9 \<Longrightarrow> l < 9 \<Longrightarrow> same_unit (r, c) (k, l) \<Longrightarrow> b ! k ! l \<noteq> ?v"
    by (auto simp: valid_move_iff)
  have other: "\<And>i j. i < 9 \<Longrightarrow> j < 9 \<Longrightarrow> (i, j) \<noteq> (r, c) \<Longrightarrow>
       (if b ! i ! j = 0 then cell_consistent s i j else s ! i ! j = b ! i ! j)"
    using cells wf rc by (auto simp: nth_set_cell)
  have "cell_consistent s r c"
    unfolding cell_consistent_iff
  proof (intro conjI allI impI vd)
    fix k l assume kl: "k < 9" "l < 9" "(k, l) \<noteq> (r, c) \<and> same_unit (r, c) (k, l)"
    show "s ! k ! l \<noteq> ?v"
    proof (cases "b ! k ! l = 0")
      case True
      with other [of k l] kl have "cell_consistent s k l" by auto
      with kl rc(1,2) have "s ! r ! c \<noteq> s ! k ! l"
        unfolding cell_consistent_iff by (metis same_unit_sym)
      then show ?thesis by simp
    next
      case False
      with other [of k l] kl vpeer [of k l] show ?thesis by auto
    qed
  qed
  then have ccr: "cell_consistent s r c" .
  show ?L
    unfolding is_completion_iff
  proof (intro conjI allI impI wfs)
    fix i j :: nat assume ij: "i < 9" "j < 9"
    show "if b ! i ! j = 0 then cell_consistent s i j else s ! i ! j = b ! i ! j"
    proof (cases "(i, j) = (r, c)")
      case True
      with ccr rc(3) show ?thesis by auto
    next
      case False
      from other [OF ij False] show ?thesis .
    qed
  qed
qed

lemma distinct_digits: "distinct digits"
  by (simp add: digits_def)

lemma mem_search_branch:
  "(s \<in> set (search_branch b r c ns)) =
   (\<exists>n\<in>set ns. is_valid_move b (int r) (int c) n \<and> s \<in> set (solutions (set_cell b r c n)))"
  by (auto simp: search_branch_def split: if_splits)

lemma valid_move_nonzero: "is_valid_move b row col n \<Longrightarrow> n \<noteq> 0"
  by (auto dest: valid_move_range)

lemma solutions_sound: "s \<in> set (solutions b) \<Longrightarrow> is_completion b s"
proof (induction b arbitrary: s rule: solutions.induct)
  case (1 b)
  have wf: "wf_grid b"
    using "1.prems" by (auto simp: solutions.simps [of b] split: if_splits)
  show ?case
  proof (cases "first_empty b")
    case None
    with "1.prems" wf have "s = b" by (simp add: solutions_unfold)
    with None wf show ?thesis by (simp add: completion_full first_empty_None)
  next
    case (Some rc)
    then obtain r c where rc: "first_empty b = Some (r, c)" by (cases rc) auto
    with "1.prems" wf obtain n where n: "n \<in> set digits" "is_valid_move b (int r) (int c) n"
      and s: "s \<in> set (solutions (set_cell b r c n))"
      by (auto simp: solutions_unfold mem_search_branch)
    from "1.IH" [OF wf rc refl n] s have C: "is_completion (set_cell b r c n) s" .
    from rc have r: "r < 9" "c < 9" "b ! r ! c = 0" by (auto dest: first_empty_Some)
    from completion_set_cell_value [OF C wf r(1,2) valid_move_nonzero [OF n(2)]]
    have "s ! r ! c = n" .
    with C n(2) completion_step [OF wf r] show ?thesis by simp
  qed
qed

lemma solutions_complete: "wf_grid b \<Longrightarrow> is_completion b s \<Longrightarrow> s \<in> set (solutions b)"
proof (induction b arbitrary: s rule: solutions.induct)
  case (1 b)
  show ?case
  proof (cases "first_empty b")
    case None
    with "1.prems" have "s = b" by (simp add: completion_full first_empty_None)
    with None "1.prems" show ?thesis by (simp add: solutions_unfold)
  next
    case (Some rc)
    then obtain r c where rc: "first_empty b = Some (r, c)" by (cases rc) auto
    then have r: "r < 9" "c < 9" "b ! r ! c = 0" by (auto dest: first_empty_Some)
    let ?n = "s ! r ! c"
    from completion_step [OF "1.prems"(1) r] "1.prems"(2)
    have V: "is_valid_move b (int r) (int c) ?n" and C: "is_completion (set_cell b r c ?n) s"
      by auto
    from V have n: "?n \<in> set digits" by (auto dest: valid_move_range)
    have "s \<in> set (solutions (set_cell b r c ?n))"
      using "1.IH" [OF "1.prems"(1) rc refl n V] "1.prems"(1) C by (simp add: wf_set_cell)
    with n V rc "1.prems"(1) show ?thesis
      by (auto simp: solutions_unfold mem_search_branch)
  qed
qed

lemma distinct_solutions: "distinct (solutions b)"
proof (induction b rule: solutions.induct)
  case (1 b)
  show ?case
  proof (cases "wf_grid b")
    case False
    then show ?thesis by (simp add: solutions.simps [of b])
  next
    case wf: True
    show ?thesis
    proof (cases "first_empty b")
      case None
      with wf show ?thesis by (simp add: solutions_unfold)
    next
      case (Some rc)
      then obtain r c where rc: "first_empty b = Some (r, c)" by (cases rc) auto
      then have r: "r < 9" "c < 9" by (auto dest: first_empty_Some)
      let ?f = "\<lambda>n. if is_valid_move b (int r) (int c) n then solutions (set_cell b r c n) else []"
      have "distinct (concat (map ?f digits))"
      proof (rule distinct_concat_map [OF distinct_digits])
        fix n assume "n \<in> set digits"
        with "1.IH" [OF wf rc refl] show "distinct (?f n)" by simp
      next
        fix x y assume "x \<in> set digits" "y \<in> set digits" "x \<noteq> y"
        show "set (?f x) \<inter> set (?f y) = {}"
        proof (rule ccontr)
          assume "set (?f x) \<inter> set (?f y) \<noteq> {}"
          then obtain s where sx: "s \<in> set (?f x)" and sy: "s \<in> set (?f y)" by blast
          from sx have vx: "is_valid_move b (int r) (int c) x"
            and cx: "is_completion (set_cell b r c x) s"
            by (auto split: if_splits intro: solutions_sound)
          from sy have vy: "is_valid_move b (int r) (int c) y"
            and cy: "is_completion (set_cell b r c y) s"
            by (auto split: if_splits intro: solutions_sound)
          from completion_set_cell_value [OF cx wf r valid_move_nonzero [OF vx]]
               completion_set_cell_value [OF cy wf r valid_move_nonzero [OF vy]]
          have "x = y" by simp
          with \<open>x \<noteq> y\<close> show False ..
        qed
      qed
      with rc wf show ?thesis by (simp add: solutions_unfold search_branch_def)
    qed
  qed
qed

end
