(* ===== verification/Solver.thy ===== *)
theory Solver
  imports Search
begin

text \<open>
  The class \<open>SudokuSolver\<close> (src/Sudoku/include/SudokuSolver.hpp,
  src/SudokuSolver.cpp). \<open>solveRecursive\<close> mutates the board in place: it writes
  a trial digit with \<open>getBoard()[row][col] = num\<close>, recurses, and on failure writes
  \<open>0\<close> back. The model threads the board through the recursion: the result is the
  returned flag together with the board the call leaves behind. The \<open>for (num = 1;
  num <= 9; num++)\<close> loop of one stack frame is \<open>solve_loop b row col num\<close>; the
  recursive call \<open>solveRecursive(board)\<close> inside it is written out in place (find
  the next empty cell; accept if there is none). Whether this recursion stops depends
  on the board having nine rows of nine cells (on a ragged board the C++ indexing is
  undefined), so it is a \<^theory_text>\<open>partial_function\<close> in the \<open>option\<close> monad and
  its totality on well-formed boards is a theorem.
\<close>

definition find_empty_cell :: "grid \<Rightarrow> cell option" where
  "find_empty_cell b = find (\<lambda>(i, j). is_empty b (int i) (int j)) cells"

partial_function (option) solve_loop :: "grid \<Rightarrow> nat \<Rightarrow> nat \<Rightarrow> int \<Rightarrow> (bool \<times> grid) option" where
  "solve_loop b row col num =
     (if num \<le> 9 then
        (if is_valid_move b (int row) (int col) num then
           (let b1 = set_cell b row col num in
            do {
              (ok, b2) \<leftarrow> (case find_empty_cell b1 of
                              None \<Rightarrow> Some (True, b1)
                            | Some (r, c) \<Rightarrow> solve_loop b1 r c 1);
              if ok then Some (True, b2)
              else solve_loop (set_cell b2 row col 0) row col (num + 1)
            })
         else solve_loop b row col (num + 1))
      else Some (False, b))"

definition solve_recursive :: "grid \<Rightarrow> (bool \<times> grid) option" where
  "solve_recursive b =
     (case find_empty_cell b of None \<Rightarrow> Some (True, b) | Some (r, c) \<Rightarrow> solve_loop b r c 1)"

definition solve :: "grid \<Rightarrow> (bool \<times> grid) option" where
  "solve b = solve_recursive b"

definition is_valid_board :: "grid \<Rightarrow> bool" where
  "is_valid_board b =
     list_all (\<lambda>(i, j). let v = b ! i ! j in
                       v = 0 \<or> is_valid_move (set_cell b i j 0) (int i) (int j) v) cells"

declare solve_loop.simps [code]

subsection \<open>The search refines the enumeration of completions\<close>

lemma find_empty_cell_eq: "find_empty_cell b = first_empty b"
  unfolding find_empty_cell_def first_empty_def
  by (rule find_cong) (auto simp: is_empty_nat)

lemma solve_loop_unfold:
  "solve_loop b row col num =
     (if num \<le> 9 then
        (if is_valid_move b (int row) (int col) num then
           do {
             (ok, b2) \<leftarrow> solve_recursive (set_cell b row col num);
             if ok then Some (True, b2)
             else solve_loop (set_cell b2 row col 0) row col (num + 1)
           }
         else solve_loop b row col (num + 1))
      else Some (False, b))"
  by (simp add: solve_loop.simps [of b row col num] solve_recursive_def Let_def)

lemma search_branch_Nil [simp]: "search_branch b r c [] = []"
  by (simp add: search_branch_def)

lemma search_branch_Cons:
  "search_branch b r c (n # ns) =
     (if is_valid_move b (int r) (int c) n then solutions (set_cell b r c n) else []) @
     search_branch b r c ns"
  by (simp add: search_branch_def)

lemma search_outcome_append:
  "search_outcome b (xs @ ys) = (if xs = [] then search_outcome b ys else search_outcome b xs)"
  by (cases xs) (simp_all add: search_outcome_def)

lemma solve_loop_refines:
  assumes wf: "wf_grid b" and rc: "r < 9" "c < 9" "b ! r ! c = 0"
    and rec: "\<And>b'. count_empty b' < count_empty b \<Longrightarrow> wf_grid b' \<Longrightarrow>
                    solve_recursive b' = Some (search_outcome b' (solutions b'))"
  shows "solve_loop b r c num = Some (search_outcome b (search_branch b r c [num..9]))"
proof (induction "nat (10 - num)" arbitrary: num rule: less_induct)
  case less
  show ?case
  proof (cases "num \<le> 9")
    case False
    then show ?thesis by (simp add: solve_loop_unfold [of b r c num] search_outcome_def)
  next
    case True
    then have ns: "[num..9] = num # [num + 1..9]" by (simp add: upto_rec1)
    have next_loop: "solve_loop b r c (num + 1) =
                     Some (search_outcome b (search_branch b r c [num + 1..9]))"
      using True by (intro less) simp
    show ?thesis
    proof (cases "is_valid_move b (int r) (int c) num")
      case False
      with True next_loop ns show ?thesis by (simp add: solve_loop_unfold [of b r c num] search_branch_Cons)
    next
      case valid: True
      let ?b1 = "set_cell b r c num"
      have child: "solve_recursive ?b1 = Some (search_outcome ?b1 (solutions ?b1))"
        using valid wf by (intro rec) (simp_all add: valid_move_count_empty wf_set_cell)
      show ?thesis
      proof (cases "solutions ?b1")
        case Nil
        have "set_cell ?b1 r c 0 = b" using rc(3) by (rule set_cell_restore)
        with True valid child Nil next_loop ns show ?thesis
          by (simp add: solve_loop_unfold [of b r c num] search_branch_Cons search_outcome_def)
      next
        case (Cons s ss)
        with True valid child ns show ?thesis
          by (simp add: solve_loop_unfold [of b r c num] search_branch_Cons search_outcome_def)
      qed
    qed
  qed
qed

lemma solve_recursive_refines:
  "wf_grid b \<Longrightarrow> solve_recursive b = Some (search_outcome b (solutions b))"
proof (induction "count_empty b" arbitrary: b rule: less_induct)
  case less
  show ?case
  proof (cases "first_empty b")
    case None
    with less.prems show ?thesis
      by (simp add: solve_recursive_def find_empty_cell_eq solutions_unfold search_outcome_def)
  next
    case (Some rc)
    then obtain r c where rc: "first_empty b = Some (r, c)" by (cases rc) auto
    then have cell: "r < 9" "c < 9" "b ! r ! c = 0" by (auto dest: first_empty_Some)
    have "solve_loop b r c 1 = Some (search_outcome b (search_branch b r c [1..9]))"
      using less.prems cell by (rule solve_loop_refines) (use less in blast)
    with rc less.prems show ?thesis
      by (simp add: solve_recursive_def find_empty_cell_eq solutions_unfold digits_def)
  qed
qed

subsection \<open>isValidBoard and the Sudoku rules\<close>

lemma cell_check_iff:
  assumes "wf_grid b" "i < 9" "j < 9" "b ! i ! j \<noteq> 0"
  shows "is_valid_move (set_cell b i j 0) (int i) (int j) (b ! i ! j) = cell_consistent b i j"
  using assms
  by (auto simp: valid_move_iff cell_consistent_iff nth_set_cell split: if_splits)

lemma is_valid_board_iff:
  "wf_grid b \<Longrightarrow>
   is_valid_board b = (\<forall>i<9. \<forall>j<9. b ! i ! j \<noteq> 0 \<longrightarrow> cell_consistent b i j)"
proof -
  assume wf: "wf_grid b"
  have pw: "(b ! i ! j = 0 \<or> is_valid_move (set_cell b i j 0) (int i) (int j) (b ! i ! j)) =
            (b ! i ! j \<noteq> 0 \<longrightarrow> cell_consistent b i j)" if "i < 9" "j < 9" for i j
    using cell_check_iff [OF wf that] by blast
  show ?thesis
    unfolding is_valid_board_def list_all_cells Let_def using pw by blast
qed

lemma completion_consistent:
  assumes wf: "wf_grid b" and vb: "is_valid_board b" and C: "is_completion b s"
    and ij: "i < 9" "j < 9"
  shows "cell_consistent s i j"
proof (cases "b ! i ! j = 0")
  case True
  with C ij show ?thesis by (auto simp: is_completion_iff)
next
  case False
  have cells: "\<And>k l. k < 9 \<Longrightarrow> l < 9 \<Longrightarrow>
      (if b ! k ! l = 0 then cell_consistent s k l else s ! k ! l = b ! k ! l)"
    using C by (auto simp: is_completion_iff)
  from vb wf ij False have cb: "cell_consistent b i j" by (auto simp: is_valid_board_iff)
  from cells [OF ij] False have si: "s ! i ! j = b ! i ! j" by simp
  show ?thesis
    unfolding cell_consistent_iff
  proof (intro conjI allI impI)
    show "1 \<le> s ! i ! j" "s ! i ! j \<le> 9" using cb si by (auto simp: cell_consistent_iff)
    fix k l assume kl: "k < 9" "l < 9" "(k, l) \<noteq> (i, j) \<and> same_unit (i, j) (k, l)"
    show "s ! k ! l \<noteq> s ! i ! j"
    proof (cases "b ! k ! l = 0")
      case True
      with cells [OF kl(1,2)] have "cell_consistent s k l" by simp
      with kl ij have "s ! i ! j \<noteq> s ! k ! l"
        unfolding cell_consistent_iff by (metis same_unit_sym)
      then show ?thesis by simp
    next
      case nz: False
      with cells [OF kl(1,2)] have "s ! k ! l = b ! k ! l" by simp
      with si cb kl show ?thesis by (auto simp: cell_consistent_iff)
    qed
  qed
qed

lemma completion_iff_valid:
  assumes wf: "wf_grid b" and vb: "is_valid_board b"
  shows "is_completion b s =
    (wf_grid s \<and> is_full s \<and> is_valid_board s \<and>
     (\<forall>i<9. \<forall>j<9. b ! i ! j \<noteq> 0 \<longrightarrow> s ! i ! j = b ! i ! j))"
proof
  assume C: "is_completion b s"
  then have wfs: "wf_grid s" by (simp add: is_completion_iff)
  have cs: "\<And>i j. i < 9 \<Longrightarrow> j < 9 \<Longrightarrow> cell_consistent s i j"
    using completion_consistent [OF wf vb C] .
  then have "is_full s" by (fastforce simp: is_full_iff cell_consistent_iff)
  moreover have "is_valid_board s" using wfs cs by (simp add: is_valid_board_iff)
  moreover have "\<forall>i<9. \<forall>j<9. b ! i ! j \<noteq> 0 \<longrightarrow> s ! i ! j = b ! i ! j"
    using C by (auto simp: is_completion_iff)
  ultimately show "wf_grid s \<and> is_full s \<and> is_valid_board s \<and>
     (\<forall>i<9. \<forall>j<9. b ! i ! j \<noteq> 0 \<longrightarrow> s ! i ! j = b ! i ! j)" using wfs by blast
next
  assume R: "wf_grid s \<and> is_full s \<and> is_valid_board s \<and>
     (\<forall>i<9. \<forall>j<9. b ! i ! j \<noteq> 0 \<longrightarrow> s ! i ! j = b ! i ! j)"
  then show "is_completion b s"
    by (auto simp: is_completion_iff is_valid_board_iff is_full_iff)
qed

subsection \<open>Correctness of solve\<close>

lemma solve_outcome: "wf_grid b \<Longrightarrow> solve b = Some (search_outcome b (solutions b))"
  by (simp add: solve_def solve_recursive_refines)

lemma search_outcome_solutions:
  assumes "wf_grid b"
  shows "\<exists>ok s. search_outcome b (solutions b) = (ok, s) \<and> (ok = (\<exists>t. is_completion b t)) \<and>
                (ok \<longrightarrow> is_completion b s) \<and> (\<not> ok \<longrightarrow> s = b)"
proof (cases "solutions b")
  case Nil
  with assms have "\<not> (\<exists>t. is_completion b t)"
    using solutions_complete by fastforce
  with Nil show ?thesis by (simp add: search_outcome_def) blast
next
  case (Cons s ss)
  then have "is_completion b s" by (metis list.set_intros(1) solutions_sound)
  with Cons show ?thesis by (auto simp: search_outcome_def)
qed

lemma solve_unique:
  assumes wf: "wf_grid b" and g: "is_completion b g" and u: "\<And>t. is_completion b t \<Longrightarrow> t = g"
  shows "solve b = Some (True, g)"
proof -
  obtain ok t where o: "search_outcome b (solutions b) = (ok, t)" "ok = (\<exists>u. is_completion b u)"
      "ok \<longrightarrow> is_completion b t"
    using search_outcome_solutions [OF wf] by blast
  have ok: "ok" using o(2) g by blast
  then have "t = g" using o(3) by (intro u) simp
  with o(1) ok show ?thesis by (simp add: solve_outcome [OF wf])
qed

lemma valid_move_preserves_valid:
  assumes wf: "wf_grid b" and vb: "is_valid_board b" and mv: "is_valid_move b (int r) (int c) v"
  shows "is_valid_board (set_cell b r c v)"
proof -
  from mv have r: "r < 9" "c < 9" "1 \<le> v" "v \<le> 9" "b ! r ! c = 0"
    and peer: "\<And>k l. k < 9 \<Longrightarrow> l < 9 \<Longrightarrow> same_unit (r, c) (k, l) \<Longrightarrow> b ! k ! l \<noteq> v"
    by (auto simp: valid_move_iff)
  let ?b' = "set_cell b r c v"
  have old: "\<And>i j. i < 9 \<Longrightarrow> j < 9 \<Longrightarrow> b ! i ! j \<noteq> 0 \<Longrightarrow> cell_consistent b i j"
    using vb wf by (simp add: is_valid_board_iff)
  have "cell_consistent ?b' i j" if ij: "i < 9" "j < 9" "?b' ! i ! j \<noteq> 0" for i j
  proof (cases "(i, j) = (r, c)")
    case True
    with peer wf r show ?thesis by (auto simp: cell_consistent_iff nth_set_cell)
  next
    case False
    with ij wf r have nz: "b ! i ! j \<noteq> 0" by (auto simp: nth_set_cell split: if_splits)
    with old ij have cb: "cell_consistent b i j" by blast
    have same: "?b' ! i ! j = b ! i ! j" using False ij wf r by (simp add: nth_set_cell)
    show ?thesis
      unfolding cell_consistent_iff same
    proof (intro conjI allI impI)
      show "1 \<le> b ! i ! j" "b ! i ! j \<le> 9" using cb by (auto simp: cell_consistent_iff)
      fix k l assume kl: "k < 9" "l < 9" "(k, l) \<noteq> (i, j) \<and> same_unit (i, j) (k, l)"
      show "?b' ! k ! l \<noteq> b ! i ! j"
      proof (cases "(k, l) = (r, c)")
        case True
        with kl have "same_unit (r, c) (i, j)" by (simp add: same_unit_sym)
        with peer ij have "b ! i ! j \<noteq> v" by blast
        with True wf r show ?thesis by (simp add: nth_set_cell)
      next
        case kl_other: False
        with cb kl wf r show ?thesis by (auto simp: cell_consistent_iff nth_set_cell)
      qed
    qed
  qed
  with wf show ?thesis by (simp add: is_valid_board_iff wf_set_cell)
qed

lemma solve_success_valid:
  assumes wf: "wf_grid b" and vb: "is_valid_board b" and sv: "solve b = Some (True, s)"
  shows "wf_grid s \<and> is_full s \<and> is_valid_board s \<and>
         (\<forall>i<9. \<forall>j<9. b ! i ! j \<noteq> 0 \<longrightarrow> s ! i ! j = b ! i ! j)"
proof -
  obtain ok t where o: "search_outcome b (solutions b) = (ok, t)"
    and P: "ok \<longrightarrow> is_completion b t"
    using search_outcome_solutions [OF wf] by blast
  with sv have "ok" "t = s" by (simp_all add: solve_outcome [OF wf])
  with P completion_iff_valid [OF wf vb] show ?thesis by blast
qed

subsection \<open>Properties of the solver\<close>

text \<open>C1: On a well-formed board, solve always returns, and it reproduces the
  specification search: it succeeds exactly when the board has a completion, and then
  returns the first completion in the search order (first empty cell in row-major order,
  digits ascending); when it fails it hands back the board unchanged.\<close>

theorem solve_first_completion:
  "wf_grid b \<Longrightarrow>
   solve b = (if \<exists>t. is_completion b t then Some (True, hd (solutions b)) else Some (False, b))"
proof -
  assume wf: "wf_grid b"
  show ?thesis
  proof (cases "solutions b")
    case Nil
    with wf have "\<not> (\<exists>t. is_completion b t)" using solutions_complete by fastforce
    with Nil wf show ?thesis by (simp add: solve_outcome search_outcome_def)
  next
    case (Cons s ss)
    then have "is_completion b s" by (metis list.set_intros(1) solutions_sound)
    with Cons wf show ?thesis by (auto simp: solve_outcome search_outcome_def)
  qed
qed

theorem solve_first_completion_witness:
  "wf_grid sudoku_board \<and>
   solve sudoku_board = (if \<exists>t. is_completion sudoku_board t
                         then Some (True, hd (solutions sudoku_board))
                         else Some (False, sudoku_board))"
  using solve_first_completion [OF wf_sudoku_board] wf_sudoku_board by simp

text \<open>C2: solve returns a flag and a board; the flag is true exactly when a completion
  exists, the board is then a completion of the input, and on failure all trial
  placements have been undone.\<close>

theorem solve_correct:
  "wf_grid b \<Longrightarrow>
   \<exists>ok s. solve b = Some (ok, s) \<and> ok = (\<exists>t. is_completion b t) \<and>
          (ok \<longrightarrow> is_completion b s) \<and> (\<not> ok \<longrightarrow> s = b)"
  using search_outcome_solutions by (simp add: solve_outcome)

theorem solve_correct_witness:
  "wf_grid sudoku_board \<and>
   (\<exists>ok s. solve sudoku_board = Some (ok, s) \<and> ok = (\<exists>t. is_completion sudoku_board t) \<and>
          (ok \<longrightarrow> is_completion sudoku_board s) \<and> (\<not> ok \<longrightarrow> s = sudoku_board))"
  using solve_correct [OF wf_sudoku_board] wf_sudoku_board by simp

text \<open>C3: On a board that passes isValidBoard, a successful solve returns a full board
  that passes isValidBoard and keeps every given cell; solve fails only when no such
  board exists.\<close>

theorem solve_valid_solution:
  assumes wf: "wf_grid b" and vb: "is_valid_board b"
  shows "\<exists>ok s. solve b = Some (ok, s) \<and>
           (ok \<longrightarrow> is_full s \<and> is_valid_board s \<and>
                  (\<forall>i<9. \<forall>j<9. b ! i ! j \<noteq> 0 \<longrightarrow> s ! i ! j = b ! i ! j)) \<and>
           (\<not> ok \<longrightarrow> s = b \<and>
                  \<not> (\<exists>t. wf_grid t \<and> is_full t \<and> is_valid_board t \<and>
                        (\<forall>i<9. \<forall>j<9. b ! i ! j \<noteq> 0 \<longrightarrow> t ! i ! j = b ! i ! j)))"
proof -
  obtain ok s where o: "search_outcome b (solutions b) = (ok, s)"
    and P: "ok = (\<exists>t. is_completion b t)" "ok \<longrightarrow> is_completion b s" "\<not> ok \<longrightarrow> s = b"
    using search_outcome_solutions [OF wf] by blast
  note E = completion_iff_valid [OF wf vb]
  show ?thesis
  proof (intro exI conjI)
    show "solve b = Some (ok, s)" using o by (simp add: solve_outcome [OF wf])
    show "ok \<longrightarrow> is_full s \<and> is_valid_board s \<and>
                  (\<forall>i<9. \<forall>j<9. b ! i ! j \<noteq> 0 \<longrightarrow> s ! i ! j = b ! i ! j)"
      using P(2) E by blast
    show "\<not> ok \<longrightarrow> s = b \<and>
                  \<not> (\<exists>t. wf_grid t \<and> is_full t \<and> is_valid_board t \<and>
                        (\<forall>i<9. \<forall>j<9. b ! i ! j \<noteq> 0 \<longrightarrow> t ! i ! j = b ! i ! j))"
      using P(1,3) E by blast
  qed
qed

theorem solve_valid_solution_witness:
  "wf_grid sudoku_board \<and> is_valid_board sudoku_board \<and>
   (\<exists>ok s. solve sudoku_board = Some (ok, s) \<and>
           (ok \<longrightarrow> is_full s \<and> is_valid_board s \<and>
                  (\<forall>i<9. \<forall>j<9. sudoku_board ! i ! j \<noteq> 0 \<longrightarrow> s ! i ! j = sudoku_board ! i ! j)) \<and>
           (\<not> ok \<longrightarrow> s = sudoku_board \<and>
                  \<not> (\<exists>t. wf_grid t \<and> is_full t \<and> is_valid_board t \<and>
                        (\<forall>i<9. \<forall>j<9. sudoku_board ! i ! j \<noteq> 0 \<longrightarrow> t ! i ! j = sudoku_board ! i ! j))))"
proof -
  have vb: "is_valid_board sudoku_board" by code_simp
  show ?thesis using solve_valid_solution [OF wf_sudoku_board vb] wf_sudoku_board vb by simp
qed

text \<open>C4: isValidBoard accepts a well-formed board exactly when every filled cell holds a
  digit 1..9 and no two distinct cells of one row, column or box hold the same filled
  value.\<close>

theorem is_valid_board_rules:
  "wf_grid b \<Longrightarrow>
   is_valid_board b =
     ((\<forall>i<9. \<forall>j<9. b ! i ! j \<noteq> 0 \<longrightarrow> 1 \<le> b ! i ! j \<and> b ! i ! j \<le> 9) \<and>
      (\<forall>i<9. \<forall>j<9. \<forall>k<9. \<forall>l<9. (i, j) \<noteq> (k, l) \<and> same_unit (i, j) (k, l) \<and> b ! i ! j \<noteq> 0
          \<longrightarrow> b ! k ! l \<noteq> b ! i ! j))"
  by (auto simp: is_valid_board_iff cell_consistent_iff)

theorem is_valid_board_rules_witness:
  "wf_grid sudoku_board \<and>
   is_valid_board sudoku_board =
     ((\<forall>i<9. \<forall>j<9. sudoku_board ! i ! j \<noteq> 0 \<longrightarrow> 1 \<le> sudoku_board ! i ! j \<and> sudoku_board ! i ! j \<le> 9) \<and>
      (\<forall>i<9. \<forall>j<9. \<forall>k<9. \<forall>l<9. (i, j) \<noteq> (k, l) \<and> same_unit (i, j) (k, l) \<and> sudoku_board ! i ! j \<noteq> 0
          \<longrightarrow> sudoku_board ! k ! l \<noteq> sudoku_board ! i ! j))"
  using is_valid_board_rules [OF wf_sudoku_board] wf_sudoku_board by simp

end
