(* ===== verification/Counter.thy ===== *)
theory Counter
  imports Solver
begin

text \<open>
  The solution counter of \<open>SudokuGenerator\<close> (src/Sudoku/src/SudokuGenerator.cpp,
  \<open>countSolutions\<close> and \<open>hasUniqueSolution\<close>). Unlike the solver it takes the
  board by value: the recursive call works on its own copy, and the caller's copy
  only sees the write of the trial digit and the write of \<open>0\<close> after it. The budget
  passed down is \<open>maxSolutions - solutionCount\<close>, and the digit loop stops as soon as
  the count reaches the budget. As for the solver, the digit loop of one frame is a
  \<^theory_text>\<open>partial_function (option)\<close> with the recursive call written out in place.
\<close>

partial_function (option) count_loop ::
  "grid \<Rightarrow> int \<Rightarrow> nat \<Rightarrow> nat \<Rightarrow> int \<Rightarrow> int \<Rightarrow> int option" where
  "count_loop b max_solutions row col num solution_count =
     (if num \<le> 9 \<and> solution_count < max_solutions then
        (if is_valid_move b (int row) (int col) num then
           (let b1 = set_cell b row col num in
            do {
              k \<leftarrow> (case find_empty_cell b1 of
                      None \<Rightarrow> Some 1
                    | Some (r, c) \<Rightarrow> count_loop b1 (max_solutions - solution_count) r c 1 0);
              count_loop (set_cell b1 row col 0) max_solutions row col (num + 1) (solution_count + k)
            })
         else count_loop b max_solutions row col (num + 1) solution_count)
      else Some solution_count)"

definition count_solutions :: "grid \<Rightarrow> int \<Rightarrow> int option" where
  "count_solutions b max_solutions =
     (case find_empty_cell b of
        None \<Rightarrow> Some 1
      | Some (r, c) \<Rightarrow> count_loop b max_solutions r c 1 0)"

definition count_solutions_default :: "grid \<Rightarrow> int option" where
  "count_solutions_default b = count_solutions b 2"

definition has_unique_solution :: "grid \<Rightarrow> bool option" where
  "has_unique_solution b = do { n \<leftarrow> count_solutions b 2; Some (n = 1) }"

declare count_loop.simps [code]

subsection \<open>The counter refines the enumeration of completions\<close>

lemma count_loop_unfold:
  "count_loop b m row col num sc =
     (if num \<le> 9 \<and> sc < m then
        (if is_valid_move b (int row) (int col) num then
           do {
             k \<leftarrow> count_solutions (set_cell b row col num) (m - sc);
             count_loop (set_cell (set_cell b row col num) row col 0) m row col (num + 1) (sc + k)
           }
         else count_loop b m row col (num + 1) sc)
      else Some sc)"
  by (simp add: count_loop.simps [of b m row col num sc] count_solutions_def Let_def)

lemma min_budget_step:
  fixes m sc l1 l2 :: int
  assumes "sc < m" "0 \<le> l2"
  shows "min m (sc + min (m - sc) l1 + l2) = min m (sc + (l1 + l2))"
  using assms by linarith

lemma count_loop_refines:
  assumes wf: "wf_grid b" and rc: "r < 9" "c < 9" "b ! r ! c = 0"
    and rec: "\<And>b' m'. count_empty b' < count_empty b \<Longrightarrow> wf_grid b' \<Longrightarrow> 1 \<le> m' \<Longrightarrow>
                    count_solutions b' m' = Some (min m' (int (length (solutions b'))))"
  shows "sc \<le> m \<Longrightarrow>
         count_loop b m r c num sc = Some (min m (sc + int (length (search_branch b r c [num..9]))))"
proof (induction "nat (10 - num)" arbitrary: num sc rule: less_induct)
  case less
  show ?case
  proof (cases "num \<le> 9 \<and> sc < m")
    case False
    with less.prems show ?thesis
      by (subst count_loop_unfold) (cases "num \<le> 9", simp_all)
  next
    case True
    then have ns: "[num..9] = num # [num + 1..9]" by (simp add: upto_rec1)
    have next_loop: "\<And>sc'. sc' \<le> m \<Longrightarrow> count_loop b m r c (num + 1) sc' =
                     Some (min m (sc' + int (length (search_branch b r c [num + 1..9]))))"
      using True by (intro less) simp_all
    show ?thesis
    proof (cases "is_valid_move b (int r) (int c) num")
      case False
      with True next_loop less.prems ns show ?thesis
        by (simp add: count_loop_unfold [of b m r c num sc] search_branch_Cons)
    next
      case valid: True
      let ?b1 = "set_cell b r c num"
      let ?k = "min (m - sc) (int (length (solutions ?b1)))"
      have child: "count_solutions ?b1 (m - sc) = Some ?k"
        using valid wf True by (intro rec) (simp_all add: valid_move_count_empty wf_set_cell)
      have restore: "set_cell ?b1 r c 0 = b" using rc(3) by (rule set_cell_restore)
      have "sc + ?k \<le> m" by simp
      from next_loop [OF this]
      have "count_loop b m r c num sc =
            Some (min m (sc + ?k + int (length (search_branch b r c [num + 1..9]))))"
        using True valid child restore by (simp add: count_loop_unfold [of b m r c num sc])
      also have "\<dots> = Some (min m (sc + int (length (search_branch b r c [num..9]))))"
        using True valid ns by (simp add: search_branch_Cons min_budget_step)
      finally show ?thesis .
    qed
  qed
qed

lemma count_solutions_refines_aux:
  "wf_grid b \<Longrightarrow> 1 \<le> m \<Longrightarrow> count_solutions b m = Some (min m (int (length (solutions b))))"
proof (induction "count_empty b" arbitrary: b m rule: less_induct)
  case less
  show ?case
  proof (cases "first_empty b")
    case None
    with less.prems show ?thesis
      by (simp add: count_solutions_def find_empty_cell_eq solutions_unfold)
  next
    case (Some rc)
    then obtain r c where rc: "first_empty b = Some (r, c)" by (cases rc) auto
    then have cell: "r < 9" "c < 9" "b ! r ! c = 0" by (auto dest: first_empty_Some)
    have "count_loop b m r c 1 0 = Some (min m (0 + int (length (search_branch b r c [1..9]))))"
      using less.prems(1) cell by (rule count_loop_refines) (use less in \<open>blast, simp\<close>)
    with rc less.prems show ?thesis
      by (simp add: count_solutions_def find_empty_cell_eq solutions_unfold digits_def)
  qed
qed

lemma length_solutions_card:
  "wf_grid b \<Longrightarrow> length (solutions b) = card {s. is_completion b s}"
proof -
  assume wf: "wf_grid b"
  have "set (solutions b) = {s. is_completion b s}"
    using wf by (auto intro: solutions_sound solutions_complete)
  then show ?thesis using distinct_card [OF distinct_solutions [of b]] by simp
qed

lemma unique_completion_iff:
  "wf_grid b \<Longrightarrow> (length (solutions b) = 1) = (\<exists>!s. is_completion b s)"
proof -
  assume "wf_grid b"
  then have "set (solutions b) = {s. is_completion b s}"
    by (auto intro: solutions_sound solutions_complete)
  then show ?thesis using distinct_length_one_iff [OF distinct_solutions [of b]] by simp
qed

lemma has_unique_solution_length:
  "wf_grid b \<Longrightarrow> has_unique_solution b = Some (length (solutions b) = 1)"
proof -
  assume wf: "wf_grid b"
  have "(min 2 (int (length (solutions b))) = 1) = (length (solutions b) = 1)" by linarith
  with wf show ?thesis by (simp add: has_unique_solution_def count_solutions_refines_aux)
qed

subsection \<open>Properties of the counter\<close>

text \<open>C5: countSolutions with a budget m of at least 1 always returns, and returns the
  number of completions of the board, capped at m.\<close>

theorem count_solutions_correct:
  "wf_grid b \<Longrightarrow> 1 \<le> m \<Longrightarrow>
   count_solutions b m = Some (min m (int (card {s. is_completion b s})))"
  by (simp add: count_solutions_refines_aux length_solutions_card)

theorem count_solutions_correct_witness:
  "wf_grid sudoku_board \<and> 1 \<le> (2::int) \<and>
   count_solutions sudoku_board 2 = Some (min 2 (int (card {s. is_completion sudoku_board s})))"
  using count_solutions_correct [OF wf_sudoku_board, of 2] wf_sudoku_board by simp

text \<open>C6: hasUniqueSolution always returns on a well-formed board, and it is true
  exactly when the board has one and only one completion.\<close>

theorem has_unique_solution_correct:
  "wf_grid b \<Longrightarrow> has_unique_solution b = Some (\<exists>!s. is_completion b s)"
proof -
  assume wf: "wf_grid b"
  show ?thesis
    by (subst unique_completion_iff [OF wf, symmetric]) (rule has_unique_solution_length [OF wf])
qed

theorem has_unique_solution_correct_witness:
  "wf_grid sudoku_board \<and> has_unique_solution sudoku_board = Some (\<exists>!s. is_completion sudoku_board s)"
  using has_unique_solution_correct [OF wf_sudoku_board] wf_sudoku_board by simp

text \<open>C7: The budget is not honoured on a full board: countSolutions returns 1 on a
  board with no empty cell even when the budget is 0 (the design says a zero budget
  returns 0 immediately). The generator never passes a zero budget.\<close>

theorem count_zero_budget: "is_full b \<Longrightarrow> count_solutions b 0 = Some 1"
  by (simp add: count_solutions_def find_empty_cell_eq first_empty_None [symmetric])

theorem count_zero_budget_witness:
  "is_full (replicate 9 (replicate 9 1)) \<and> count_solutions (replicate 9 (replicate 9 1)) 0 = Some 1"
proof -
  have f: "is_full (replicate 9 (replicate 9 1))" by (simp add: is_full_iff)
  show ?thesis using count_zero_budget [OF f] f by simp
qed

end
