(* ===== verification/Generator.thy ===== *)
theory Generator
  imports Counter
begin

text \<open>
  The puzzle generator \<open>SudokuGenerator\<close> (src/SudokuGenerator.hpp,
  src/Sudoku/src/SudokuGenerator.cpp) apart from the counter. The process-wide
  \<open>std::mt19937 rng\<close> is an explicit state of an arbitrary type \<open>'s\<close>; the only
  thing the code asks of it is a uniformly drawn index, which is the parameter
  \<open>draw s i\<close> (a number and the next state; the index used is taken modulo
  \<open>i + 1\<close>, the range of \<open>uniform_int_distribution(0, i)\<close>). \<open>std::shuffle\<close> is
  the Fisher-Yates shuffle over these draws (the library's algorithm, not code of the
  repository). \<open>generateComplete\<close> calls itself again whenever the solver fails;
  nothing bounds these retries, so it is a \<^theory_text>\<open>partial_function (option)\<close>.
\<close>

type_synonym 's draw = "'s \<Rightarrow> nat \<Rightarrow> nat \<times> 's"

datatype difficulty = EASY | MEDIUM | HARD

definition swap :: "'a list \<Rightarrow> nat \<Rightarrow> nat \<Rightarrow> 'a list" where
  "swap xs i j = xs[i := xs ! j, j := xs ! i]"

fun shuffle_down :: "'s draw \<Rightarrow> nat \<Rightarrow> 'a list \<Rightarrow> 's \<Rightarrow> 'a list \<times> 's" where
  "shuffle_down draw 0 xs s = (xs, s)"
| "shuffle_down draw (Suc i) xs s =
     (case draw s (Suc i) of (k, s') \<Rightarrow> shuffle_down draw i (swap xs (Suc i) (k mod Suc (Suc i))) s')"

definition std_shuffle :: "'s draw \<Rightarrow> 'a list \<Rightarrow> 's \<Rightarrow> 'a list \<times> 's" where
  "std_shuffle draw xs s = shuffle_down draw (length xs - 1) xs s"

definition set_seed :: "(nat \<Rightarrow> 's) \<Rightarrow> nat \<Rightarrow> 's \<Rightarrow> 's" where
  "set_seed seeded seed s = seeded seed"

definition box_offsets :: "(nat \<times> nat) list" where
  "box_offsets = [(i, j). i \<leftarrow> [0..<3], j \<leftarrow> [0..<3]]"

definition fill_diagonal_box :: "'s draw \<Rightarrow> grid \<Rightarrow> nat \<Rightarrow> nat \<Rightarrow> 's \<Rightarrow> grid \<times> 's" where
  "fill_diagonal_box draw b row col s =
     (case std_shuffle draw digits s of
        (numbers, s') \<Rightarrow>
          (fold (\<lambda>(i, j) g. set_cell g (row + i) (col + j) (numbers ! (3 * i + j))) box_offsets b, s'))"

definition fill_diagonals :: "'s draw \<Rightarrow> grid \<Rightarrow> 's \<Rightarrow> grid \<times> 's" where
  "fill_diagonals draw b s =
     fold (\<lambda>box (g, t). fill_diagonal_box draw g (box * 3) (box * 3) t) [0..<3] (b, s)"

definition fill_board :: "grid \<Rightarrow> (bool \<times> grid) option" where
  "fill_board b = solve b"

partial_function (option) generate_complete :: "'s draw \<Rightarrow> 's \<Rightarrow> (grid \<times> 's) option" where
  "generate_complete draw s =
     (case fill_diagonals draw sudoku_board s of
        (b, s') \<Rightarrow>
          do {
            (ok, b') \<leftarrow> solve b;
            if ok then Some (b', s') else generate_complete draw s'
          })"

fun remove_loop :: "grid \<Rightarrow> int \<Rightarrow> int \<Rightarrow> cell list \<Rightarrow> grid option" where
  "remove_loop b cells_to_remove removed [] = Some b"
| "remove_loop b cells_to_remove removed ((row, col) # ps) =
     (if cells_to_remove \<le> removed then Some b
      else
        (let backup = get_value b (int row) (int col);
             b1 = set_cell b row col 0
         in case has_unique_solution b1 of
              None \<Rightarrow> None
            | Some u \<Rightarrow>
                if u then remove_loop b1 cells_to_remove (removed + 1) ps
                else remove_loop (set_cell b1 row col backup) cells_to_remove removed ps))"

definition remove_cells :: "'s draw \<Rightarrow> grid \<Rightarrow> int \<Rightarrow> 's \<Rightarrow> (grid \<times> 's) option" where
  "remove_cells draw b cells_to_remove s =
     (case std_shuffle draw cells s of
        (positions, s') \<Rightarrow> map_option (\<lambda>b'. (b', s')) (remove_loop b cells_to_remove 0 positions))"

fun cells_for :: "difficulty \<Rightarrow> int" where
  "cells_for EASY = 40"
| "cells_for MEDIUM = 50"
| "cells_for HARD = 60"

definition generate_puzzle :: "'s draw \<Rightarrow> difficulty \<Rightarrow> 's \<Rightarrow> (grid \<times> 's) option" where
  "generate_puzzle draw difficulty s =
     do {
       (b, s1) \<leftarrow> generate_complete draw s;
       remove_cells draw b (cells_for difficulty) s1
     }"

definition generate_puzzle_default :: "'s draw \<Rightarrow> 's \<Rightarrow> (grid \<times> 's) option" where
  "generate_puzzle_default draw s = generate_puzzle draw MEDIUM s"

text \<open>
  Specification helpers: a permutation of the digits, the nine values of a diagonal
  box in row-major order, the state of the board after the first \<open>k\<close> diagonal boxes
  are filled, and a board that agrees with a full board wherever it is filled. The
  draw \<open>lcg_draw\<close> is a concrete random source used only by the witnesses.
\<close>

definition digit_perm :: "int list \<Rightarrow> bool" where
  "digit_perm p = (length p = 9 \<and> distinct p \<and> set p = {1..9})"

definition box_list :: "grid \<Rightarrow> nat \<Rightarrow> int list" where
  "box_list g k = map (\<lambda>(i, j). g ! (3 * k + i) ! (3 * k + j)) box_offsets"

definition diag_filled :: "nat \<Rightarrow> grid \<Rightarrow> bool" where
  "diag_filled k g =
     (wf_grid g \<and> (\<forall>a<9. \<forall>b<9. (a div 3 \<noteq> b div 3 \<or> k \<le> a div 3) \<longrightarrow> g ! a ! b = 0) \<and>
      (\<forall>K<k. digit_perm (box_list g K)))"

definition agrees :: "grid \<Rightarrow> grid \<Rightarrow> bool" where
  "agrees b g = list_all (\<lambda>(i, j). b ! i ! j = 0 \<or> b ! i ! j = g ! i ! j) cells"

definition lcg_draw :: "nat draw" where
  "lcg_draw s i = (s * 7 + 3, s + 1)"

definition lcg_completion :: grid where
  "lcg_completion =
     [[1,7,9,2,4,6,5,3,8],[5,2,8,3,1,9,6,7,4],[4,6,3,5,7,8,1,9,2],
      [2,3,5,1,9,7,8,4,6],[6,4,7,8,3,2,9,1,5],[8,9,1,4,6,5,7,2,3],
      [9,8,6,7,2,4,3,5,1],[7,1,4,6,5,3,2,8,9],[3,5,2,9,8,1,4,6,7]]"

declare generate_complete.simps [code]

subsection \<open>std::shuffle permutes\<close>

lemma shuffle_down_perm:
  "i < length xs \<Longrightarrow>
   length (fst (shuffle_down draw i xs s)) = length xs \<and>
   set (fst (shuffle_down draw i xs s)) = set xs \<and>
   distinct (fst (shuffle_down draw i xs s)) = distinct xs"
proof (induction i arbitrary: xs s)
  case 0
  then show ?case by simp
next
  case (Suc i)
  obtain k s' where d: "draw s (Suc i) = (k, s')" by fastforce
  let ?ys = "swap xs (Suc i) (k mod Suc (Suc i))"
  have "k mod Suc (Suc i) < Suc (Suc i)" by simp
  with Suc.prems have j: "k mod Suc (Suc i) < length xs" by linarith
  have "length ?ys = length xs \<and> set ?ys = set xs \<and> distinct ?ys = distinct xs"
    using Suc.prems j by (simp add: swap_def)
  with Suc.IH [of ?ys s'] Suc.prems d show ?case by simp
qed

lemma std_shuffle_perm:
  "xs \<noteq> [] \<Longrightarrow>
   length (fst (std_shuffle draw xs s)) = length xs \<and>
   set (fst (std_shuffle draw xs s)) = set xs \<and>
   distinct (fst (std_shuffle draw xs s)) = distinct xs"
  unfolding std_shuffle_def by (rule shuffle_down_perm) simp

lemma std_shuffle_digits: "digit_perm (fst (std_shuffle draw digits s))"
proof -
  have "digits \<noteq> []" "length digits = 9" "distinct digits" by (simp_all add: digits_def)
  with std_shuffle_perm [of digits draw s] show ?thesis by (simp add: digit_perm_def)
qed

subsection \<open>Filling the diagonal boxes\<close>

lemma fold_set_cells_nth:
  assumes "wf_grid g" "\<And>i j. (i, j) \<in> set xs \<Longrightarrow> row + i < 9 \<and> col + j < 9" "a < 9" "b < 9"
  shows "fold (\<lambda>(i, j) g. set_cell g (row + i) (col + j) (f i j)) xs g ! a ! b =
         (if row \<le> a \<and> col \<le> b \<and> (a - row, b - col) \<in> set xs then f (a - row) (b - col) else g ! a ! b)"
    and "wf_grid (fold (\<lambda>(i, j) g. set_cell g (row + i) (col + j) (f i j)) xs g)"
  using assms
proof (induction xs arbitrary: g)
  case Nil
  { case 1 then show ?case by simp }
  { case 2 then show ?case by simp }
next
  case (Cons x xs)
  obtain i j where x: "x = (i, j)" by fastforce
  { case 1
    let ?g = "set_cell g (row + i) (col + j) (f i j)"
    have wf': "wf_grid ?g" using "1.prems"(1) by (rule wf_set_cell)
    have ij: "row + i < 9" "col + j < 9" using "1.prems"(2) x by auto
    have bxs: "\<And>i j. (i, j) \<in> set xs \<Longrightarrow> row + i < 9 \<and> col + j < 9"
      using "1.prems"(2) by auto
    have "fold (\<lambda>(i, j) g. set_cell g (row + i) (col + j) (f i j)) xs ?g ! a ! b =
          (if row \<le> a \<and> col \<le> b \<and> (a - row, b - col) \<in> set xs then f (a - row) (b - col) else ?g ! a ! b)"
      by (rule Cons.IH(1) [OF wf' bxs "1.prems"(3,4)])
    with x ij "1.prems"(1,3,4) show ?case by (auto simp: nth_set_cell)
  }
  { case 2
    have wf': "wf_grid (set_cell g (row + i) (col + j) (f i j))" using "2.prems"(1) by (rule wf_set_cell)
    have bxs: "\<And>i j. (i, j) \<in> set xs \<Longrightarrow> row + i < 9 \<and> col + j < 9"
      using "2.prems"(2) by auto
    from Cons.IH(2) [OF wf' bxs "2.prems"(3,4)] x show ?case by simp
  }
qed

lemma set_box_offsets: "((i, j) \<in> set box_offsets) = (i < 3 \<and> j < 3)"
  by (auto simp: box_offsets_def image_iff)

lemma fill_diagonal_box_nth:
  assumes "wf_grid g" "row \<le> 6" "col \<le> 6" "a < 9" "b < 9"
  shows "fst (fill_diagonal_box draw g row col s) ! a ! b =
         (if row \<le> a \<and> a < row + 3 \<and> col \<le> b \<and> b < col + 3
          then fst (std_shuffle draw digits s) ! (3 * (a - row) + (b - col)) else g ! a ! b)"
    and "wf_grid (fst (fill_diagonal_box draw g row col s))"
proof -
  obtain ns s' where sh: "std_shuffle draw digits s = (ns, s')" by fastforce
  let ?f = "\<lambda>i j. ns ! (3 * i + j)"
  have bounds: "\<And>i j. (i, j) \<in> set box_offsets \<Longrightarrow> row + i < 9 \<and> col + j < 9"
    using assms(2,3) by (auto simp: set_box_offsets)
  have eq: "fst (fill_diagonal_box draw g row col s) =
            fold (\<lambda>(i, j) g. set_cell g (row + i) (col + j) (?f i j)) box_offsets g"
    using sh by (simp add: fill_diagonal_box_def)
  have "fold (\<lambda>(i, j) g. set_cell g (row + i) (col + j) (?f i j)) box_offsets g ! a ! b =
        (if row \<le> a \<and> col \<le> b \<and> (a - row, b - col) \<in> set box_offsets
         then ?f (a - row) (b - col) else g ! a ! b)"
    by (rule fold_set_cells_nth(1) [where xs = box_offsets and f = ?f, OF assms(1) bounds assms(4,5)])
  moreover have "(row \<le> a \<and> col \<le> b \<and> (a - row, b - col) \<in> set box_offsets) =
                 (row \<le> a \<and> a < row + 3 \<and> col \<le> b \<and> b < col + 3)"
    by (auto simp: set_box_offsets)
  ultimately show "fst (fill_diagonal_box draw g row col s) ! a ! b =
         (if row \<le> a \<and> a < row + 3 \<and> col \<le> b \<and> b < col + 3
          then fst (std_shuffle draw digits s) ! (3 * (a - row) + (b - col)) else g ! a ! b)"
    using eq sh by simp
  show "wf_grid (fst (fill_diagonal_box draw g row col s))"
    using eq fold_set_cells_nth(2) [where xs = box_offsets and f = ?f, OF assms(1) bounds assms(4,5)]
    by simp
qed

lemma box_offsets_index: "map (\<lambda>(i, j). 3 * i + j) box_offsets = [0..<9]"
  by code_simp

lemma length_box_offsets: "length box_offsets = 9"
  by code_simp

lemma box_offsets_nth: "i < 3 \<Longrightarrow> j < 3 \<Longrightarrow> box_offsets ! (3 * i + j) = (i, j)"
proof -
  assume "i < 3" "j < 3"
  then have "i \<in> {0, 1, 2}" "j \<in> {0, 1, 2}" by auto
  then show ?thesis by (auto simp: box_offsets_def upt_conv_Cons)
qed

lemma box_list_nth:
  "i < 3 \<Longrightarrow> j < 3 \<Longrightarrow> box_list g k ! (3 * i + j) = g ! (3 * k + i) ! (3 * k + j)"
proof -
  assume ij: "i < 3" "j < 3"
  then have "3 * i + j < length box_offsets" by (simp add: length_box_offsets)
  with ij show ?thesis by (simp add: box_list_def box_offsets_nth)
qed

lemma digit_pair_inj:
  "x < 3 \<Longrightarrow> y < 3 \<Longrightarrow> u < 3 \<Longrightarrow> v < 3 \<Longrightarrow> 3 * x + y = 3 * u + (v::nat) \<Longrightarrow> x = u \<and> y = v"
  by arith

lemma box_div: "(3 * K \<le> a \<and> a < 3 * K + 3) = (a div 3 = (K::nat))"
  by auto

lemma map_box_offsets_nth:
  assumes "length ns = 9"
  shows "map (\<lambda>(i, j). ns ! (3 * i + j)) box_offsets = ns"
proof -
  have "map (\<lambda>(i, j). ns ! (3 * i + j)) box_offsets = map ((!) ns) (map (\<lambda>(i, j). 3 * i + j) box_offsets)"
    by (simp add: comp_def case_prod_unfold)
  also have "\<dots> = map ((!) ns) [0..<length ns]" by (simp only: box_offsets_index assms)
  also have "\<dots> = ns" by (rule map_nth)
  finally show ?thesis .
qed

lemma diag_filled_step:
  assumes K: "K < 3" and inv: "diag_filled K g"
  shows "diag_filled (Suc K) (fst (fill_diagonal_box draw g (K * 3) (K * 3) s))"
proof -
  let ?g = "fst (fill_diagonal_box draw g (K * 3) (K * 3) s)"
  let ?ns = "fst (std_shuffle draw digits s)"
  have wf: "wf_grid g" using inv by (simp add: diag_filled_def)
  have K6: "K * 3 \<le> 6" using K by simp
  have nth: "?g ! a ! b =
      (if a div 3 = K \<and> b div 3 = K then ?ns ! (3 * (a - K * 3) + (b - K * 3)) else g ! a ! b)"
    if ab: "a < 9" "b < 9" for a b
  proof -
    have "?g ! a ! b = (if K * 3 \<le> a \<and> a < K * 3 + 3 \<and> K * 3 \<le> b \<and> b < K * 3 + 3
                        then ?ns ! (3 * (a - K * 3) + (b - K * 3)) else g ! a ! b)"
      by (rule fill_diagonal_box_nth(1) [OF wf K6 K6 ab])
    moreover have "(K * 3 \<le> a \<and> a < K * 3 + 3 \<and> K * 3 \<le> b \<and> b < K * 3 + 3) =
                   (a div 3 = K \<and> b div 3 = K)" by auto
    ultimately show ?thesis by (simp only:)
  qed
  have wf': "wf_grid ?g" using fill_diagonal_box_nth(2) [OF wf K6 K6, of 0 0] by simp
  have zero: "\<forall>a<9. \<forall>b<9. (a div 3 \<noteq> b div 3 \<or> Suc K \<le> a div 3) \<longrightarrow> ?g ! a ! b = 0"
    using inv nth by (auto simp: diag_filled_def)
  have old: "box_list ?g K' = box_list g K'" if "K' < K" for K'
    unfolding box_list_def
  proof (rule map_cong [OF refl], clarify)
    fix i j assume "(i, j) \<in> set box_offsets"
    then have ij: "i < 3" "j < 3" by (simp_all add: set_box_offsets)
    with that K have "(3 * K' + i) div 3 \<noteq> K" "3 * K' + i < 9" "3 * K' + j < 9" by auto
    with nth show "?g ! (3 * K' + i) ! (3 * K' + j) = g ! (3 * K' + i) ! (3 * K' + j)" by simp
  qed
  have new: "box_list ?g K = ?ns"
  proof -
    have "box_list ?g K = map (\<lambda>(i, j). ?ns ! (3 * i + j)) box_offsets"
      unfolding box_list_def
    proof (rule map_cong [OF refl], clarify)
      fix i j assume "(i, j) \<in> set box_offsets"
      then have ij: "i < 3" "j < 3" by (simp_all add: set_box_offsets)
      with K have "3 * K + i < 9" "3 * K + j < 9" "(3 * K + i) div 3 = K" "(3 * K + j) div 3 = K"
        by auto
      with nth show "?g ! (3 * K + i) ! (3 * K + j) = ?ns ! (3 * i + j)" by (simp add: mult.commute)
    qed
    also have "\<dots> = ?ns" using std_shuffle_digits [of draw s]
      by (simp add: digit_perm_def map_box_offsets_nth)
    finally show ?thesis .
  qed
  have perms: "\<forall>K'<Suc K. digit_perm (box_list ?g K')"
    using inv old new std_shuffle_digits [of draw s] by (auto simp: diag_filled_def less_Suc_eq)
  from wf' zero perms show ?thesis by (simp add: diag_filled_def)
qed

lemma diag_filled_start: "diag_filled 0 sudoku_board"
  using wf_sudoku_board by (simp add: diag_filled_def sudoku_board_def)

lemma fill_diagonals_filled: "diag_filled 3 (fst (fill_diagonals draw sudoku_board s))"
proof -
  obtain g1 s1 where 1: "fill_diagonal_box draw sudoku_board 0 0 s = (g1, s1)" by fastforce
  obtain g2 s2 where 2: "fill_diagonal_box draw g1 3 3 s1 = (g2, s2)" by fastforce
  obtain g3 s3 where 3: "fill_diagonal_box draw g2 6 6 s2 = (g3, s3)" by fastforce
  have "diag_filled 1 g1" using diag_filled_step [of 0 sudoku_board draw s] diag_filled_start 1 by simp
  then have "diag_filled 2 g2" using diag_filled_step [of 1 g1 draw s1] 2 by (simp add: eval_nat_numeral)
  then have "diag_filled 3 g3" using diag_filled_step [of 2 g2 draw s2] 3 by (simp add: eval_nat_numeral)
  moreover have "fill_diagonals draw sudoku_board s = (g3, s3)"
    using 1 2 3 by (simp add: fill_diagonals_def upt_conv_Cons)
  ultimately show ?thesis by simp
qed

lemma diag_filled_valid:
  assumes "diag_filled 3 g"
  shows "is_valid_board g"
proof -
  have wf: "wf_grid g" and zero: "\<And>a b. a < 9 \<Longrightarrow> b < 9 \<Longrightarrow> a div 3 \<noteq> b div 3 \<Longrightarrow> g ! a ! b = 0"
    and perm: "\<And>K. K < 3 \<Longrightarrow> digit_perm (box_list g K)"
    using assms by (auto simp: diag_filled_def)
  have val: "g ! a ! b = box_list g (a div 3) ! (3 * (a mod 3) + b mod 3)"
    if "a < 9" "b < 9" "a div 3 = b div 3" for a b
  proof -
    have "box_list g (a div 3) ! (3 * (a mod 3) + b mod 3) =
          g ! (3 * (a div 3) + a mod 3) ! (3 * (a div 3) + b mod 3)"
      by (rule box_list_nth) simp_all
    also have "3 * (a div 3) + a mod 3 = a" by (rule mult_div_mod_eq)
    also have "3 * (a div 3) + b mod 3 = b" using that(3) by (metis mult_div_mod_eq)
    finally show ?thesis by simp
  qed
  have "cell_consistent g a b" if ab: "a < 9" "b < 9" "g ! a ! b \<noteq> 0" for a b
  proof -
    from ab zero have same: "a div 3 = b div 3" by blast
    let ?K = "a div 3"
    have K: "?K < 3" using ab by simp
    have idx: "3 * (a mod 3) + b mod 3 < length (box_list g ?K)"
      using perm [OF K] by (simp add: digit_perm_def)
    have inset: "g ! a ! b \<in> {1..9}"
      using val [OF ab(1,2) same] nth_mem [OF idx] perm [OF K] by (simp add: digit_perm_def)
    show ?thesis
      unfolding cell_consistent_iff
    proof (intro conjI allI impI)
      show "1 \<le> g ! a ! b" "g ! a ! b \<le> 9" using inset by auto
      fix k l assume kl: "k < 9" "l < 9" "(k, l) \<noteq> (a, b) \<and> same_unit (a, b) (k, l)"
      show "g ! k ! l \<noteq> g ! a ! b"
      proof (cases "g ! k ! l = 0")
        case True
        with inset show ?thesis by auto
      next
        case False
        with kl zero have same': "k div 3 = l div 3" by blast
        with kl same have box: "k div 3 = ?K" by (auto simp: same_unit_def)
        have idx': "3 * (k mod 3) + l mod 3 < length (box_list g ?K)"
          using perm [OF K] by (simp add: digit_perm_def)
        have ne: "3 * (k mod 3) + l mod 3 \<noteq> 3 * (a mod 3) + b mod 3"
        proof
          assume "3 * (k mod 3) + l mod 3 = 3 * (a mod 3) + b mod 3"
          then have "k mod 3 = a mod 3" "l mod 3 = b mod 3"
            using digit_pair_inj [of "k mod 3" "l mod 3" "a mod 3" "b mod 3"] by simp_all
          with box same same' have "k = a" "l = b"
            by (metis mult_div_mod_eq)+
          with kl show False by simp
        qed
        have "distinct (box_list g ?K)" using perm [OF K] by (simp add: digit_perm_def)
        with idx idx' ne val [OF kl(1,2) same'] val [OF ab(1,2) same] box
        show ?thesis by (simp add: nth_eq_iff_index_eq)
      qed
    qed
  qed
  with wf show ?thesis by (simp add: is_valid_board_iff)
qed

subsection \<open>generateComplete\<close>

lemma diag_board_valid:
  "wf_grid (fst (fill_diagonals draw sudoku_board s)) \<and> is_valid_board (fst (fill_diagonals draw sudoku_board s))"
  using fill_diagonals_filled [of draw s] diag_filled_valid by (auto simp: diag_filled_def)

lemma generate_complete_sound:
  assumes ret: "generate_complete draw s = Some r"
  shows "wf_grid (fst r) \<and> is_full (fst r) \<and> is_valid_board (fst r)"
proof (rule generate_complete.raw_induct
    [where P = "\<lambda>draw s r. wf_grid (fst r) \<and> is_full (fst r) \<and> is_valid_board (fst r)", OF _ ret])
  fix f draw s r
  assume IH: "\<And>draw s r. f draw s = Some r \<Longrightarrow>
                wf_grid (fst r) \<and> is_full (fst r) \<and> is_valid_board (fst r)"
    and eq: "(case fill_diagonals draw sudoku_board s of
               (b, s') \<Rightarrow> do { (ok, b') \<leftarrow> solve b; if ok then Some (b', s') else f draw s' }) = Some r"
  obtain b s' where fd: "fill_diagonals draw sudoku_board s = (b, s')" by fastforce
  have b: "wf_grid b" "is_valid_board b" using diag_board_valid [of draw s] fd by simp_all
  obtain ok b' where sv: "solve b = Some (ok, b')"
    using eq fd by (cases "solve b") auto
  show "wf_grid (fst r) \<and> is_full (fst r) \<and> is_valid_board (fst r)"
  proof (cases ok)
    case True
    with eq fd sv have "r = (b', s')" by simp
    with solve_success_valid [OF b] sv True show ?thesis by simp
  next
    case False
    with eq fd sv have "f draw s' = Some r" by simp
    then show ?thesis by (rule IH)
  qed
qed

lemma generate_complete_first:
  assumes "\<exists>t. is_completion (fst (fill_diagonals draw sudoku_board s)) t"
  shows "generate_complete draw s =
         Some (hd (solutions (fst (fill_diagonals draw sudoku_board s))),
               snd (fill_diagonals draw sudoku_board s))"
proof -
  obtain b s' where fd: "fill_diagonals draw sudoku_board s = (b, s')" by fastforce
  have wf: "wf_grid b" using diag_board_valid [of draw s] fd by simp
  from assms fd obtain t where "is_completion b t" by auto
  with wf have "solutions b \<noteq> []" using solutions_complete by fastforce
  then have "solve b = Some (True, hd (solutions b))"
    by (cases "solutions b") (simp_all add: solve_outcome [OF wf] search_outcome_def)
  with fd show ?thesis by (simp add: generate_complete.simps [of draw s])
qed

subsection \<open>removeCells\<close>

lemma agrees_iff: "agrees b g = (\<forall>i<9. \<forall>j<9. b ! i ! j \<noteq> 0 \<longrightarrow> b ! i ! j = g ! i ! j)"
  by (auto simp: agrees_def list_all_cells)

lemma remove_loop_wf: "wf_grid b \<Longrightarrow> remove_loop b k n ps = Some b' \<Longrightarrow> wf_grid b'"
  by (induction b k n ps rule: remove_loop.induct) (auto simp: Let_def wf_set_cell split: option.splits if_splits)

lemma valid_clear_cell:
  assumes wf: "wf_grid b" and vb: "is_valid_board b" and rc: "r < 9" "c < 9"
  shows "is_valid_board (set_cell b r c 0)"
proof -
  have wf': "wf_grid (set_cell b r c 0)" using wf by (rule wf_set_cell)
  have "cell_consistent (set_cell b r c 0) i j" if ij: "i < 9" "j < 9" "set_cell b r c 0 ! i ! j \<noteq> 0" for i j
  proof -
    have nz: "b ! i ! j \<noteq> 0" and same: "set_cell b r c 0 ! i ! j = b ! i ! j"
      using ij wf rc by (auto simp: nth_set_cell split: if_splits)
    have "cell_consistent b i j" using vb wf ij(1,2) nz by (simp add: is_valid_board_iff)
    with same wf rc show ?thesis by (auto simp: cell_consistent_iff nth_set_cell)
  qed
  with wf' show ?thesis by (simp add: is_valid_board_iff)
qed

lemma remove_loop_valid:
  "set ps \<subseteq> set cells \<Longrightarrow> wf_grid b \<Longrightarrow> is_valid_board b \<Longrightarrow> remove_loop b k n ps = Some b' \<Longrightarrow>
   is_valid_board b'"
  by (induction b k n ps rule: remove_loop.induct)
     (auto simp: Let_def get_value_def valid_clear_cell wf_set_cell set_cell_restore split: option.splits if_splits)

lemma remove_cells_valid:
  assumes wf: "wf_grid g" and vb: "is_valid_board g" and rc: "remove_cells draw g k s = Some (p, s')"
  shows "wf_grid p \<and> is_valid_board p"
proof -
  obtain ps s'' where sh: "std_shuffle draw cells s = (ps, s'')" by fastforce
  have "cells \<noteq> []" using length_cells by (metis list.size(3) zero_neq_numeral)
  then have ps: "set ps \<subseteq> set cells" using std_shuffle_perm [of cells draw s] sh by simp
  have l: "remove_loop g k 0 ps = Some p" using rc sh by (auto simp: remove_cells_def)
  show ?thesis using remove_loop_wf [OF wf l] remove_loop_valid [OF ps wf vb l] by simp
qed

lemma remove_loop_inv:
  assumes ps: "set ps \<subseteq> set cells"
  shows "wf_grid b \<Longrightarrow> agrees b g \<Longrightarrow> (\<exists>!t. is_completion b t) \<Longrightarrow>
         \<exists>b'. remove_loop b k n ps = Some b' \<and> wf_grid b' \<and> agrees b' g \<and>
              (\<exists>!t. is_completion b' t) \<and> int (count_empty b') \<le> int (count_empty b) + max 0 (k - n)"
  using ps
proof (induction ps arbitrary: b n)
  case Nil
  then show ?case by auto
next
  case (Cons p ps)
  obtain r c where p: "p = (r, c)" by fastforce
  with Cons.prems(4) have rc: "r < 9" "c < 9" and ps: "set ps \<subseteq> set cells" by auto
  show ?case
  proof (cases "k \<le> n")
    case True
    with Cons.prems p show ?thesis by auto
  next
    case False
    let ?b1 = "set_cell b r c 0"
    have wf1: "wf_grid ?b1" using Cons.prems(1) by (rule wf_set_cell)
    have bk: "get_value b (int r) (int c) = b ! r ! c" using rc by (rule get_value_nat)
    have hu: "has_unique_solution ?b1 = Some (\<exists>!t. is_completion ?b1 t)"
      by (subst unique_completion_iff [OF wf1, symmetric]) (rule has_unique_solution_length [OF wf1])
    have step: "remove_loop b k n (p # ps) =
        (if \<exists>!t. is_completion ?b1 t then remove_loop ?b1 k (n + 1) ps
         else remove_loop (set_cell ?b1 r c (b ! r ! c)) k n ps)"
      using False hu bk p by (simp add: Let_def)
    show ?thesis
    proof (cases "\<exists>!t. is_completion ?b1 t")
      case True
      have ag1: "agrees ?b1 g" using Cons.prems(1,2) rc by (auto simp: agrees_iff nth_set_cell)
      obtain b' where b': "remove_loop ?b1 k (n + 1) ps = Some b'" "wf_grid b'" "agrees b' g"
          "\<exists>!t. is_completion b' t"
          "int (count_empty b') \<le> int (count_empty ?b1) + max 0 (k - (n + 1))"
        using Cons.IH [OF wf1 ag1 True ps] by blast
      have "count_empty ?b1 \<le> Suc (count_empty b)"
        using Cons.prems(1) rc by (rule count_empty_clear_cell)
      with b'(5) False have "int (count_empty b') \<le> int (count_empty b) + max 0 (k - n)" by linarith
      with b' True step show ?thesis by simp
    next
      case not_unique: False
      have restored: "set_cell ?b1 r c (b ! r ! c) = b" by (rule set_cell_restore) (rule refl)
      obtain b' where b': "remove_loop b k n ps = Some b'" "wf_grid b'" "agrees b' g"
          "\<exists>!t. is_completion b' t" "int (count_empty b') \<le> int (count_empty b) + max 0 (k - n)"
        using Cons.IH [OF Cons.prems(1,2,3) ps] by blast
      with not_unique step restored show ?thesis by simp
    qed
  qed
qed

lemma agrees_solution:
  assumes g: "wf_grid g" "is_full g" "is_valid_board g" and b: "wf_grid b" "agrees b g"
  shows "is_valid_board b \<and> is_completion b g"
proof -
  have gc: "\<And>i j. i < 9 \<Longrightarrow> j < 9 \<Longrightarrow> cell_consistent g i j"
    using g by (auto simp: is_valid_board_iff is_full_iff)
  have ag: "\<And>i j. i < 9 \<Longrightarrow> j < 9 \<Longrightarrow> b ! i ! j \<noteq> 0 \<Longrightarrow> b ! i ! j = g ! i ! j"
    using b(2) by (simp add: agrees_iff)
  have "cell_consistent b i j" if ij: "i < 9" "j < 9" and nz: "b ! i ! j \<noteq> 0" for i j
  proof -
    have eq: "b ! i ! j = g ! i ! j" using ag ij nz .
    have "b ! k ! l \<noteq> b ! i ! j"
      if kl: "k < 9" "l < 9" "(k, l) \<noteq> (i, j)" "same_unit (i, j) (k, l)" for k l
    proof (cases "b ! k ! l = 0")
      case True
      then show ?thesis using nz by simp
    next
      case False
      then have "b ! k ! l = g ! k ! l" using ag kl by blast
      moreover have "g ! k ! l \<noteq> g ! i ! j" using gc [OF ij] kl by (auto simp: cell_consistent_iff)
      ultimately show ?thesis using eq by simp
    qed
    then show ?thesis using gc [OF ij] eq by (simp add: cell_consistent_iff)
  qed
  then have vb: "is_valid_board b" using b(1) by (simp add: is_valid_board_iff)
  moreover have "is_completion b g" using completion_iff_valid [OF b(1) vb] g ag by auto
  ultimately show ?thesis ..
qed

lemma remove_cells_spec:
  assumes g: "wf_grid g" "is_full g" "is_valid_board g"
  shows "\<exists>b' s'. remove_cells draw g k s = Some (b', s') \<and> wf_grid b' \<and> is_completion b' g \<and>
           (\<exists>!t. is_completion b' t) \<and> is_valid_board b' \<and> int (count_empty b') \<le> max 0 k"
proof -
  obtain ps s' where sh: "std_shuffle draw cells s = (ps, s')" by fastforce
  have "cells \<noteq> []" using length_cells by (metis list.size(3) zero_neq_numeral)
  then have ps: "set ps \<subseteq> set cells" using std_shuffle_perm [of cells draw s] sh by simp
  have ag: "agrees g g" by (simp add: agrees_iff)
  have u: "\<exists>!t. is_completion g t" using completion_full [OF g(1,2)] by simp
  have ce: "count_empty g = 0" using g(2) count_empty_zero_iff by simp
  obtain b' where b': "remove_loop g k 0 ps = Some b'" "wf_grid b'" "agrees b' g"
      "\<exists>!t. is_completion b' t" "int (count_empty b') \<le> int (count_empty g) + max 0 (k - 0)"
    using remove_loop_inv [OF ps g(1) ag u, of k 0] by blast
  have "is_valid_board b' \<and> is_completion b' g" using agrees_solution [OF g b'(2,3)] .
  with b' sh ce show ?thesis by (auto simp: remove_cells_def)
qed

lemma generate_puzzle_spec:
  assumes gc: "generate_complete draw s = Some (g, s1)"
  shows "wf_grid g \<and> is_full g \<and> is_valid_board g \<and>
         (\<exists>p s'. generate_puzzle draw d s = Some (p, s') \<and> wf_grid p \<and> is_completion p g \<and>
                 (\<exists>!t. is_completion p t) \<and> is_valid_board p \<and> int (count_empty p) \<le> cells_for d)"
proof -
  have g: "wf_grid g" "is_full g" "is_valid_board g" using generate_complete_sound [OF gc] by auto
  have nn: "0 \<le> cells_for d" by (cases d) simp_all
  obtain p s' where p: "remove_cells draw g (cells_for d) s1 = Some (p, s')" "wf_grid p" "is_completion p g"
      "\<exists>!t. is_completion p t" "is_valid_board p" "int (count_empty p) \<le> max 0 (cells_for d)"
    using remove_cells_spec [OF g, of draw "cells_for d" s1] by blast
  have "generate_puzzle draw d s = Some (p, s')" using gc p(1) by (simp add: generate_puzzle_def)
  with p nn g show ?thesis by auto
qed

subsection \<open>Correctness of the generator\<close>

text \<open>C8: fillDiagonalBox over the three diagonal boxes yields a valid board whose diagonal boxes
  each hold a permutation of 1..9 and whose other cells are empty.\<close>
theorem fill_diagonals_correct:
  "wf_grid (fst (fill_diagonals draw sudoku_board s)) \<and>
   is_valid_board (fst (fill_diagonals draw sudoku_board s)) \<and>
   (\<forall>K<3. digit_perm (box_list (fst (fill_diagonals draw sudoku_board s)) K)) \<and>
   (\<forall>a<9. \<forall>b<9. a div 3 \<noteq> b div 3 \<longrightarrow> fst (fill_diagonals draw sudoku_board s) ! a ! b = 0)"
  using fill_diagonals_filled [of draw s] diag_board_valid [of draw s] by (auto simp: diag_filled_def)

theorem fill_diagonals_correct_witness:
  "is_valid_board (fst (fill_diagonals lcg_draw sudoku_board 5)) \<and>
   digit_perm (box_list (fst (fill_diagonals lcg_draw sudoku_board 5)) 2) \<and>
   fst (fill_diagonals lcg_draw sudoku_board 5) ! 0 ! 8 = 0"
proof -
  define g where "g = fst (fill_diagonals lcg_draw sudoku_board 5)"
  have f: "wf_grid g \<and> is_valid_board g \<and> (\<forall>K<3. digit_perm (box_list g K)) \<and>
      (\<forall>a<9. \<forall>b<9. a div 3 \<noteq> b div 3 \<longrightarrow> g ! a ! b = 0)"
    unfolding g_def by (rule fill_diagonals_correct)
  have "is_valid_board g" using f by blast
  moreover have "digit_perm (box_list g 2)" using f by simp
  moreover have "g ! 0 ! 8 = 0" using f by simp
  ultimately show ?thesis unfolding g_def by blast
qed

lemma lcg_diagonals:
  "is_completion (fst (fill_diagonals lcg_draw sudoku_board 5)) lcg_completion \<and>
   snd (fill_diagonals lcg_draw sudoku_board 5) = 29"
  by code_simp

text \<open>C9: when the diagonal board can be completed, generateComplete returns on its first
  attempt, with a completion of that board and the random state left by the diagonal fill.\<close>
theorem generate_complete_first_attempt:
  assumes "is_completion (fst (fill_diagonals draw sudoku_board s)) t"
  shows "\<exists>g. generate_complete draw s = Some (g, snd (fill_diagonals draw sudoku_board s)) \<and>
             is_completion (fst (fill_diagonals draw sudoku_board s)) g"
proof -
  let ?b = "fst (fill_diagonals draw sudoku_board s)"
  have wf: "wf_grid ?b" using diag_board_valid [of draw s] by (rule conjunct1)
  have "t \<in> set (solutions ?b)" using solutions_complete [OF wf assms] .
  then have "solutions ?b \<noteq> []" by auto
  then have "is_completion ?b (hd (solutions ?b))" by (intro solutions_sound hd_in_set)
  moreover have "generate_complete draw s = Some (hd (solutions ?b), snd (fill_diagonals draw sudoku_board s))"
    using assms by (intro generate_complete_first) blast
  ultimately show ?thesis by blast
qed

theorem generate_complete_first_attempt_witness:
  "\<exists>g. generate_complete lcg_draw 5 = Some (g, 29) \<and>
       is_completion (fst (fill_diagonals lcg_draw sudoku_board 5)) g"
  using generate_complete_first_attempt [of lcg_draw 5 lcg_completion] lcg_diagonals by simp

text \<open>C10: whenever generateComplete returns a board, generatePuzzle returns a puzzle that
  is valid, has exactly one completion, that completion is the generated board, and at most
  cellsToRemove cells are empty.\<close>
theorem generate_puzzle_correct:
  assumes gc: "generate_complete draw s = Some (g, s1)"
  shows "wf_grid g \<and> is_full g \<and> is_valid_board g \<and>
         (\<exists>p s'. generate_puzzle draw d s = Some (p, s') \<and> is_completion p g \<and>
                 (\<exists>!t. is_completion p t) \<and> is_valid_board p \<and> int (count_empty p) \<le> cells_for d)"
  using generate_puzzle_spec [OF gc, of d] by blast

theorem generate_puzzle_correct_witness:
  "is_full (hd (solutions (fst (fill_diagonals lcg_draw sudoku_board 5)))) \<and>
   (\<exists>p s'. generate_puzzle lcg_draw EASY 5 = Some (p, s') \<and> (\<exists>!t. is_completion p t) \<and>
           int (count_empty p) \<le> 40)"
proof -
  have "generate_complete lcg_draw 5 =
        Some (hd (solutions (fst (fill_diagonals lcg_draw sudoku_board 5))), 29)"
    using generate_complete_first [of lcg_draw 5] lcg_diagonals by auto
  from generate_puzzle_correct [OF this, of EASY] show ?thesis by auto
qed

end
