(* ===== verification/Propagation.thy ===== *)
theory Propagation
  imports Solver
begin

text \<open>
  The constraint-propagation solver \<open>SudokuAdvancedChecks\<close>
  (src/SudokuAdvancedChecks.cpp, src/Sudoku/include/SudokuAdvancedChecks.hpp).
  Every technique takes the board by reference and returns whether it made progress;
  it is modelled as a function from a grid to the pair (progress, new grid). A
  technique that writes cells is a \<open>fold\<close> over its loop indices of \<open>place\<close>: the
  loop body decides, on the current board, whether it has a placement (the guard and
  the value, a \<open>(row, col, value) option\<close>), and \<open>place\<close> performs the write
  \<open>board.getBoard()[row][col] = value\<close> and sets \<open>progress = true\<close>. \<open>std::set<int>\<close>
  of \<open>getPossibleValues\<close> is an ascending list. The techniques whose helpers are
  placeholders (\<open>processNakedPairsInUnit\<close>, \<open>processHiddenPairsInUnit\<close>,
  \<open>processLockedCandidatesInBox\<close>, \<open>hiddenPairs\<close>, \<open>isOnlyPossibilityInUnit\<close>)
  are modelled with their loops and their constant results. The driver loop of
  \<open>solveWithAdvancedTechniques\<close> has no bound in the code and is a
  \<open>partial_function (option)\<close>.
\<close>

definition get_possible_values :: "grid \<Rightarrow> int \<Rightarrow> int \<Rightarrow> int list" where
  "get_possible_values b row col =
     (if \<not> is_empty b row col then []
      else filter (\<lambda>value. is_valid_move b row col value) digits)"

definition place :: "(grid \<Rightarrow> (nat \<times> nat \<times> int) option) \<Rightarrow> bool \<times> grid \<Rightarrow> bool \<times> grid" where
  "place f pg =
     (case pg of (progress, g) \<Rightarrow>
        (case f g of None \<Rightarrow> (progress, g) | Some (r, c, v) \<Rightarrow> (True, set_cell g r c v)))"

definition naked_candidate :: "nat \<Rightarrow> nat \<Rightarrow> grid \<Rightarrow> (nat \<times> nat \<times> int) option" where
  "naked_candidate row col b =
     (if is_empty b (int row) (int col) then
        (let possible = get_possible_values b (int row) (int col) in
         if length possible = 1 then Some (row, col, hd possible) else None)
      else None)"

definition naked_singles :: "grid \<Rightarrow> bool \<times> grid" where
  "naked_singles b = fold (\<lambda>(row, col). place (naked_candidate row col)) cells (False, b)"

definition get_row_cells :: "nat \<Rightarrow> cell list" where
  "get_row_cells row = map (\<lambda>col. (row, col)) [0..<9]"

definition get_column_cells :: "nat \<Rightarrow> cell list" where
  "get_column_cells col = map (\<lambda>row. (row, col)) [0..<9]"

definition get_box_cells :: "nat \<Rightarrow> nat \<Rightarrow> cell list" where
  "get_box_cells box_row box_col =
     [(r, c). r \<leftarrow> [box_row * 3..<(box_row + 1) * 3], c \<leftarrow> [box_col * 3..<(box_col + 1) * 3]]"

definition all_units :: "cell list list" where
  "all_units =
     map get_row_cells [0..<9] @ map get_column_cells [0..<9] @
     [get_box_cells box_row box_col. box_row \<leftarrow> [0..<3], box_col \<leftarrow> [0..<3]]"

definition hidden_candidate :: "cell list \<Rightarrow> int \<Rightarrow> grid \<Rightarrow> (nat \<times> nat \<times> int) option" where
  "hidden_candidate unit value b =
     (let possible_cells =
        filter (\<lambda>(r, c). is_empty b (int r) (int c) \<and> is_valid_move b (int r) (int c) value) unit
      in if length possible_cells = 1
         then Some (fst (possible_cells ! 0), snd (possible_cells ! 0), value) else None)"

definition hidden_singles :: "grid \<Rightarrow> bool \<times> grid" where
  "hidden_singles b =
     fold (\<lambda>(unit, value). place (hidden_candidate unit value))
       [(unit, value). unit \<leftarrow> all_units, value \<leftarrow> digits] (False, b)"

definition process_naked_pairs_in_unit :: "grid \<Rightarrow> cell list \<Rightarrow> bool \<times> grid" where
  "process_naked_pairs_in_unit b unit = (False, b)"

definition process_hidden_pairs_in_unit :: "grid \<Rightarrow> cell list \<Rightarrow> bool \<times> grid" where
  "process_hidden_pairs_in_unit b unit = (False, b)"

definition process_locked_candidates_in_box :: "grid \<Rightarrow> nat \<Rightarrow> nat \<Rightarrow> bool \<times> grid" where
  "process_locked_candidates_in_box b box_row box_col = (False, b)"

definition naked_pairs :: "grid \<Rightarrow> bool \<times> grid" where
  "naked_pairs b =
     fold (\<lambda>unit (progress, g). case process_naked_pairs_in_unit g unit of
                                  (p, g') \<Rightarrow> (progress \<or> p, g'))
       all_units (False, b)"

definition hidden_pairs :: "grid \<Rightarrow> bool \<times> grid" where
  "hidden_pairs b = (False, b)"

definition locked_candidates :: "grid \<Rightarrow> bool \<times> grid" where
  "locked_candidates b =
     fold (\<lambda>(box_row, box_col) (progress, g). case process_locked_candidates_in_box g box_row box_col of
                                                (p, g') \<Rightarrow> (progress \<or> p, g'))
       [(box_row, box_col). box_row \<leftarrow> [0..<3], box_col \<leftarrow> [0..<3]] (False, b)"

definition is_only_possibility_in_unit :: "grid \<Rightarrow> int \<Rightarrow> int \<Rightarrow> int \<Rightarrow> bool" where
  "is_only_possibility_in_unit b row col value = False"

definition apply_all_techniques :: "grid \<Rightarrow> bool \<times> grid" where
  "apply_all_techniques b =
     (case naked_singles b of (p1, b1) \<Rightarrow>
      case hidden_singles b1 of (p2, b2) \<Rightarrow>
      case naked_pairs b2 of (p3, b3) \<Rightarrow>
      case locked_candidates b3 of (p4, b4) \<Rightarrow> (p1 \<or> p2 \<or> p3 \<or> p4, b4))"

partial_function (option) advanced_loop :: "bool \<Rightarrow> grid \<Rightarrow> grid option" where
  "advanced_loop progress b =
     (if progress \<and> \<not> is_full b then
        (case apply_all_techniques b of (p, b') \<Rightarrow> advanced_loop p b')
      else Some b)"

definition solve_with_advanced_techniques :: "grid \<Rightarrow> (bool \<times> grid) option" where
  "solve_with_advanced_techniques b = map_option (\<lambda>b'. (is_full b', b')) (advanced_loop True b)"

declare advanced_loop.simps [code]

text \<open>
  Specification of the propagation solver: \<open>moves b g\<close> holds when \<open>g\<close> arises from \<open>b\<close>
  by a sequence of writes each of which is a valid move (\<open>isValidMove\<close>) on the board of
  the moment, the soundness requirement on every digit the solver places. A unit is a list
  of nine distinct cells that pairwise share a row, a column or a box.
\<close>


inductive moves :: "grid \<Rightarrow> grid \<Rightarrow> bool" where
  moves_refl: "moves b b"
| moves_step: "moves b g \<Longrightarrow> is_valid_move g (int r) (int c) v \<Longrightarrow> moves b (set_cell g r c v)"

definition is_unit :: "cell list \<Rightarrow> bool" where
  "is_unit us =
     (length us = 9 \<and> distinct us \<and> list_all (\<lambda>(i, j). i < 9 \<and> j < 9) us \<and>
      list_all (\<lambda>p. list_all (same_unit p) us) us)"

subsection \<open>Placements by valid moves\<close>

lemma moves_single: "is_valid_move b (int r) (int c) v \<Longrightarrow> moves b (set_cell b r c v)"
  by (rule moves_step [OF moves_refl])

lemma moves_trans: "moves g h \<Longrightarrow> moves b g \<Longrightarrow> moves b h"
  by (induction rule: moves.induct) (auto intro: moves_step)

lemma moves_wf: "moves b g \<Longrightarrow> wf_grid b \<Longrightarrow> wf_grid g"
  by (induction rule: moves.induct) (auto intro: wf_set_cell)

lemma moves_valid: "moves b g \<Longrightarrow> wf_grid b \<Longrightarrow> is_valid_board b \<Longrightarrow> is_valid_board g"
  by (induction rule: moves.induct) (auto intro: valid_move_preserves_valid moves_wf)

lemma moves_keeps:
  "moves b g \<Longrightarrow> wf_grid b \<Longrightarrow> i < 9 \<Longrightarrow> j < 9 \<Longrightarrow> b ! i ! j \<noteq> 0 \<Longrightarrow> g ! i ! j = b ! i ! j"
proof (induction rule: moves.induct)
  case (moves_refl b)
  then show ?case by simp
next
  case (moves_step b g r c v)
  have wf: "wf_grid g" using moves_step.hyps(1) moves_step.prems(1) by (rule moves_wf)
  have "r < 9" "c < 9" "g ! r ! c = 0" using valid_move_range [OF moves_step.hyps(2)] by simp_all
  with moves_step wf show ?case by (auto simp: nth_set_cell)
qed

lemma moves_count: "moves b g \<Longrightarrow> wf_grid b \<Longrightarrow> g = b \<or> count_empty g < count_empty b"
proof (induction rule: moves.induct)
  case (moves_refl b)
  then show ?case by simp
next
  case (moves_step b g r c v)
  have "count_empty (set_cell g r c v) < count_empty g"
    using moves_wf [OF moves_step.hyps(1) moves_step.prems] moves_step.hyps(2)
    by (rule valid_move_count_empty)
  with moves_step.IH moves_step.prems show ?case by auto
qed

text \<open>A placement that every completion agrees with leaves the set of completions unchanged.\<close>

lemma forced_placement_completions:
  assumes wf: "wf_grid g" and mv: "is_valid_move g (int r) (int c) v"
    and forced: "\<And>s. is_completion g s \<Longrightarrow> s ! r ! c = v"
  shows "is_completion (set_cell g r c v) s = is_completion g s"
proof -
  have rc: "r < 9" "c < 9" "g ! r ! c = 0" "v \<noteq> 0" using valid_move_range [OF mv] by auto
  show ?thesis
  proof
    assume C: "is_completion (set_cell g r c v) s"
    then have "s ! r ! c = v" using completion_set_cell_value wf rc by blast
    with C mv show "is_completion g s" using completion_step [OF wf rc(1-3)] by simp
  next
    assume C: "is_completion g s"
    then have "s ! r ! c = v" by (rule forced)
    with C show "is_completion (set_cell g r c v) s" using completion_step [OF wf rc(1-3)] by simp
  qed
qed

lemma place_cases:
  "place f (p, g) = (p, g) \<and> f g = None \<or>
   (\<exists>r c v. f g = Some (r, c, v) \<and> place f (p, g) = (True, set_cell g r c v))"
  by (cases "f g") (auto simp: place_def)

lemma fold_place_moves:
  assumes "\<And>x g r c v. x \<in> set xs \<Longrightarrow> wf_grid g \<Longrightarrow> f x g = Some (r, c, v) \<Longrightarrow>
                         is_valid_move g (int r) (int c) v"
  shows "wf_grid b \<Longrightarrow> fold (\<lambda>x. place (f x)) xs (p, b) = (p', b') \<Longrightarrow>
         moves b b' \<and> (b' = b \<and> p' = p \<or> p' \<and> count_empty b' < count_empty b)"
  using assms
proof (induction xs arbitrary: p b)
  case Nil
  then show ?case by (simp add: moves_refl)
next
  case (Cons x xs)
  have hyp: "\<And>y g r c v. y \<in> set xs \<Longrightarrow> wf_grid g \<Longrightarrow> f y g = Some (r, c, v) \<Longrightarrow>
                         is_valid_move g (int r) (int c) v"
    using Cons.prems(3) by (metis list.set_intros(2))
  show ?case
  proof (cases "f x b")
    case None
    then have "place (f x) (p, b) = (p, b)" by (simp add: place_def)
    with Cons.prems(2) have "fold (\<lambda>x. place (f x)) xs (p, b) = (p', b')" by simp
    from Cons.IH [OF Cons.prems(1) this hyp] show ?thesis .
  next
    case (Some a)
    then obtain r c v where fx: "f x b = Some (r, c, v)" by (cases a) auto
    have mv: "is_valid_move b (int r) (int c) v" by (rule Cons.prems(3) [OF _ Cons.prems(1) fx]) simp
    let ?b1 = "set_cell b r c v"
    have wf1: "wf_grid ?b1" using Cons.prems(1) by (rule wf_set_cell)
    have "place (f x) (p, b) = (True, ?b1)" using fx by (simp add: place_def)
    with Cons.prems(2) have rest: "fold (\<lambda>x. place (f x)) xs (True, ?b1) = (p', b')" by simp
    have less1: "count_empty ?b1 < count_empty b" using Cons.prems(1) mv by (rule valid_move_count_empty)
    have "moves ?b1 b' \<and> (b' = ?b1 \<and> p' = True \<or> p' \<and> count_empty b' < count_empty ?b1)"
      using Cons.IH [OF wf1 rest hyp] by simp
    with moves_single [OF mv] less1 show ?thesis by (auto intro: moves_trans)
  qed
qed

lemma fold_place_completions:
  assumes "\<And>x g r c v. x \<in> set xs \<Longrightarrow> wf_grid g \<Longrightarrow> is_valid_board g \<Longrightarrow> f x g = Some (r, c, v) \<Longrightarrow>
                         is_valid_move g (int r) (int c) v \<and> (\<forall>s. is_completion g s \<longrightarrow> s ! r ! c = v)"
  shows "wf_grid b \<Longrightarrow> is_valid_board b \<Longrightarrow> fold (\<lambda>x. place (f x)) xs (p, b) = (p', b') \<Longrightarrow>
         is_valid_board b' \<and> (\<forall>s. is_completion b' s = is_completion b s)"
  using assms
proof (induction xs arbitrary: p b)
  case Nil
  then show ?case by simp
next
  case (Cons x xs)
  have hyp: "\<And>y g r c v. y \<in> set xs \<Longrightarrow> wf_grid g \<Longrightarrow> is_valid_board g \<Longrightarrow> f y g = Some (r, c, v) \<Longrightarrow>
                 is_valid_move g (int r) (int c) v \<and> (\<forall>s. is_completion g s \<longrightarrow> s ! r ! c = v)"
    using Cons.prems(4) by (metis list.set_intros(2))
  show ?case
  proof (cases "f x b")
    case None
    then have "place (f x) (p, b) = (p, b)" by (simp add: place_def)
    with Cons.prems(3) have "fold (\<lambda>x. place (f x)) xs (p, b) = (p', b')" by simp
    from Cons.IH [OF Cons.prems(1,2) this hyp] show ?thesis .
  next
    case (Some a)
    then obtain r c v where fx: "f x b = Some (r, c, v)" by (cases a) auto
    have h: "is_valid_move b (int r) (int c) v \<and> (\<forall>s. is_completion b s \<longrightarrow> s ! r ! c = v)"
      by (rule Cons.prems(4) [OF _ Cons.prems(1,2) fx]) simp
    then have mv: "is_valid_move b (int r) (int c) v" and forced: "\<And>s. is_completion b s \<Longrightarrow> s ! r ! c = v"
      by simp_all
    let ?b1 = "set_cell b r c v"
    have wf1: "wf_grid ?b1" using Cons.prems(1) by (rule wf_set_cell)
    have vb1: "is_valid_board ?b1" using Cons.prems(1,2) mv by (rule valid_move_preserves_valid)
    have "place (f x) (p, b) = (True, ?b1)" using fx by (simp add: place_def)
    with Cons.prems(3) have rest: "fold (\<lambda>x. place (f x)) xs (True, ?b1) = (p', b')" by simp
    have "is_valid_board b' \<and> (\<forall>s. is_completion b' s = is_completion ?b1 s)"
      using Cons.IH [OF wf1 vb1 rest hyp] .
    with forced_placement_completions [OF Cons.prems(1) mv forced] show ?thesis by simp
  qed
qed


subsection \<open>Candidates and forced placements\<close>

lemma sorted_digits: "sorted_wrt (<) digits"
  by code_simp

lemma valid_move_empty: "is_valid_move b row col v \<Longrightarrow> is_empty b row col"
  by (auto simp: is_empty_def get_value_def dest: valid_move_range)

lemma valid_move_digit: "is_valid_move b row col v \<Longrightarrow> v \<in> set digits"
  by (auto dest: valid_move_range)

lemma set_get_possible_values:
  "set (get_possible_values b row col) = {v. is_valid_move b row col v}"
  by (auto simp: get_possible_values_def dest: valid_move_empty valid_move_digit)

lemma sorted_get_possible_values: "sorted_wrt (<) (get_possible_values b row col)"
  by (simp add: get_possible_values_def sorted_wrt_filter sorted_digits)

lemma length_one_conv: "length xs = 1 \<Longrightarrow> xs = [xs ! 0]"
  by (cases xs) auto

lemma naked_candidate_Some:
  assumes "naked_candidate row col g = Some (r, c, v)"
  shows "r = row \<and> c = col \<and> get_possible_values g (int r) (int c) = [v] \<and>
         is_valid_move g (int r) (int c) v"
proof -
  let ?ps = "get_possible_values g (int row) (int col)"
  have l: "length ?ps = 1" and rcv: "r = row" "c = col" "v = hd ?ps"
    using assms by (auto simp: naked_candidate_def Let_def split: if_splits)
  then have ps: "?ps = [v]" by (cases ?ps) auto
  then have "v \<in> set ?ps" by simp
  with ps rcv show ?thesis by (simp add: set_get_possible_values)
qed

lemma naked_candidate_forced:
  assumes wf: "wf_grid g" and nc: "naked_candidate row col g = Some (r, c, v)"
    and C: "is_completion g s"
  shows "s ! r ! c = v"
proof -
  have ps: "get_possible_values g (int r) (int c) = [v]" and mv: "is_valid_move g (int r) (int c) v"
    using naked_candidate_Some [OF nc] by blast+
  have rc: "r < 9" "c < 9" "g ! r ! c = 0" using valid_move_range [OF mv] by simp_all
  have "is_valid_move g (int r) (int c) (s ! r ! c)" using completion_step [OF wf rc] C by simp
  then have "s ! r ! c \<in> set (get_possible_values g (int r) (int c))"
    by (simp add: set_get_possible_values)
  with ps show ?thesis by simp
qed

lemma hidden_candidate_Some:
  assumes "hidden_candidate unit value g = Some (r, c, v)"
  shows "v = value \<and> (r, c) \<in> set unit \<and> is_valid_move g (int r) (int c) v \<and>
         filter (\<lambda>(r, c). is_empty g (int r) (int c) \<and> is_valid_move g (int r) (int c) value) unit = [(r, c)]"
proof -
  let ?pc = "filter (\<lambda>(r, c). is_empty g (int r) (int c) \<and> is_valid_move g (int r) (int c) value) unit"
  have l: "length ?pc = 1" and rcv: "r = fst (?pc ! 0)" "c = snd (?pc ! 0)" "v = value"
    using assms by (auto simp: hidden_candidate_def Let_def split: if_splits)
  then have pc: "?pc = [(r, c)]" using length_one_conv [OF l] by simp
  then have "(r, c) \<in> set ?pc" by simp
  with pc rcv show ?thesis by auto
qed

lemma unit_values:
  assumes u: "is_unit us" and cs: "\<And>i j. (i, j) \<in> set us \<Longrightarrow> cell_consistent s i j"
  shows "(\<lambda>(i, j). s ! i ! j) ` set us = {1..9}"
proof (rule card_subset_eq)
  show "finite {1..9::int}" by simp
  show "(\<lambda>(i, j). s ! i ! j) ` set us \<subseteq> {1..9}"
    using cs by (auto simp: cell_consistent_def)
  have inj: "inj_on (\<lambda>(i, j). s ! i ! j) (set us)"
  proof (rule inj_onI)
    fix x y assume x: "x \<in> set us" and y: "y \<in> set us"
      and eq: "(\<lambda>(i, j). s ! i ! j) x = (\<lambda>(i, j). s ! i ! j) y"
    obtain i j k l where xy: "x = (i, j)" "y = (k, l)" by fastforce
    have su: "same_unit (i, j) (k, l)" and kl: "k < 9" "l < 9"
      using u x y xy by (auto simp: is_unit_def list_all_iff)
    show "x = y"
    proof (rule ccontr)
      assume "x \<noteq> y"
      with cs [of i j] x xy su kl have "s ! k ! l \<noteq> s ! i ! j" by (auto simp: cell_consistent_iff)
      with eq xy show False by simp
    qed
  qed
  have "card (set us) = 9" using u by (simp add: is_unit_def distinct_card)
  with inj show "card ((\<lambda>(i, j). s ! i ! j) ` set us) = card {1..9::int}"
    by (simp add: card_image)
qed

lemma hidden_candidate_forced:
  assumes wf: "wf_grid g" and vb: "is_valid_board g" and u: "is_unit unit"
    and hc: "hidden_candidate unit value g = Some (r, c, v)" and C: "is_completion g s"
  shows "s ! r ! c = v"
proof -
  have v: "v = value" and rc_in: "(r, c) \<in> set unit" and mv: "is_valid_move g (int r) (int c) v"
    and pc: "filter (\<lambda>(r, c). is_empty g (int r) (int c) \<and> is_valid_move g (int r) (int c) value) unit = [(r, c)]"
    using hidden_candidate_Some [OF hc] by auto
  have in9: "\<And>i j. (i, j) \<in> set unit \<Longrightarrow> i < 9 \<and> j < 9" using u by (auto simp: is_unit_def list_all_iff)
  have "(\<lambda>(i, j). s ! i ! j) ` set unit = {1..9}"
    using u by (rule unit_values) (use in9 completion_consistent [OF wf vb C] in blast)
  moreover have "v \<in> {1..9}" using valid_move_range [OF mv] by simp
  ultimately obtain i j where ij: "(i, j) \<in> set unit" "s ! i ! j = v" by force
  have ij9: "i < 9" "j < 9" using in9 [OF ij(1)] by simp_all
  show ?thesis
  proof (cases "g ! i ! j = 0")
    case True
    have "is_valid_move g (int i) (int j) (s ! i ! j)" using completion_step [OF wf ij9 True] C by simp
    with True ij9 ij v have "(i, j) \<in> set (filter (\<lambda>(r, c). is_empty g (int r) (int c) \<and>
                              is_valid_move g (int r) (int c) value) unit)"
      by (simp add: is_empty_nat)
    with pc ij show ?thesis by simp
  next
    case False
    then have "s ! i ! j = g ! i ! j" using C ij9 by (auto simp: is_completion_iff)
    with ij have gv: "g ! i ! j = v" by simp
    have "g ! r ! c = 0" "r < 9" "c < 9" using valid_move_range [OF mv] by simp_all
    with False have "(i, j) \<noteq> (r, c)" by auto
    moreover have "same_unit (r, c) (i, j)" using u rc_in ij by (auto simp: is_unit_def list_all_iff)
    ultimately have "g ! i ! j \<noteq> v" using mv ij9 by (auto simp: valid_move_iff)
    with gv show ?thesis by simp
  qed
qed

lemma all_units_ok: "list_all is_unit all_units"
  by code_simp


subsection \<open>The techniques and the driver loop\<close>

lemma fold_place_split: "(\<lambda>(a, b). place (F a b)) = (\<lambda>x. place (case_prod F x))"
  by (simp add: fun_eq_iff split_def)

lemma fold_const: "(\<And>x s. f x s = s) \<Longrightarrow> fold f xs s = s"
  by (induction xs) simp_all

lemma naked_singles_moves:
  "wf_grid b \<Longrightarrow> naked_singles b = (p, b') \<Longrightarrow>
   moves b b' \<and> (b' = b \<and> \<not> p \<or> p \<and> count_empty b' < count_empty b)"
  unfolding naked_singles_def fold_place_split
  by (drule (1) fold_place_moves [rotated]) (auto dest: naked_candidate_Some)

lemma naked_singles_completions:
  assumes wf: "wf_grid b" and vb: "is_valid_board b" and n: "naked_singles b = (p, b')"
  shows "is_valid_board b' \<and> (\<forall>s. is_completion b' s = is_completion b s)"
proof (rule fold_place_completions [OF _ wf vb])
  show "fold (\<lambda>x. place (case_prod naked_candidate x)) cells (False, b) = (p, b')"
    using n by (simp add: naked_singles_def fold_place_split)
next
  fix x g r c v
  assume "wf_grid g" "case_prod naked_candidate x g = Some (r, c, v)"
  then show "is_valid_move g (int r) (int c) v \<and> (\<forall>s. is_completion g s \<longrightarrow> s ! r ! c = v)"
    by (cases x) (auto dest: naked_candidate_Some naked_candidate_forced)
qed

lemma unit_of_passes:
  "x \<in> set [(unit, value). unit \<leftarrow> all_units, value \<leftarrow> digits] \<Longrightarrow> is_unit (fst x)"
  using all_units_ok by (auto simp: list_all_iff)

lemma hidden_singles_moves:
  "wf_grid b \<Longrightarrow> hidden_singles b = (p, b') \<Longrightarrow>
   moves b b' \<and> (b' = b \<and> \<not> p \<or> p \<and> count_empty b' < count_empty b)"
  unfolding hidden_singles_def fold_place_split
  by (drule (1) fold_place_moves [rotated]) (auto dest: hidden_candidate_Some)

lemma hidden_singles_completions:
  assumes wf0: "wf_grid b" and vb0: "is_valid_board b" and h: "hidden_singles b = (p, b')"
  shows "is_valid_board b' \<and> (\<forall>s. is_completion b' s = is_completion b s)"
proof (rule fold_place_completions [OF _ wf0 vb0])
  show "fold (\<lambda>x. place (case_prod hidden_candidate x))
          [(unit, value). unit \<leftarrow> all_units, value \<leftarrow> digits] (False, b) = (p, b')"
    using h by (simp add: hidden_singles_def fold_place_split)
next
  fix x g r c v
  assume x: "x \<in> set [(unit, value). unit \<leftarrow> all_units, value \<leftarrow> digits]" and wf: "wf_grid g"
    and vb: "is_valid_board g" and hc: "case_prod hidden_candidate x g = Some (r, c, v)"
  obtain u val where xu: "x = (u, val)" by fastforce
  have u: "is_unit u" using unit_of_passes [OF x] xu by simp
  have hc': "hidden_candidate u val g = Some (r, c, v)" using hc xu by simp
  show "is_valid_move g (int r) (int c) v \<and> (\<forall>s. is_completion g s \<longrightarrow> s ! r ! c = v)"
    using hidden_candidate_Some [OF hc'] hidden_candidate_forced [OF wf vb u hc'] by blast
qed

lemma stubs_no_progress:
  "naked_pairs b = (False, b) \<and> hidden_pairs b = (False, b) \<and> locked_candidates b = (False, b)"
  by (auto simp: naked_pairs_def hidden_pairs_def locked_candidates_def process_naked_pairs_in_unit_def
                 process_locked_candidates_in_box_def intro: fold_const)

lemma apply_all_moves:
  assumes wf: "wf_grid b" and a: "apply_all_techniques b = (q, b')"
  shows "moves b b' \<and> (b' = b \<and> \<not> q \<or> q \<and> count_empty b' < count_empty b)"
proof -
  obtain p1 b1 where n: "naked_singles b = (p1, b1)" by fastforce
  obtain p2 b2 where h: "hidden_singles b1 = (p2, b2)" by fastforce
  have r: "q = (p1 \<or> p2)" "b' = b2"
    using a n h stubs_no_progress [of b2] by (simp_all add: apply_all_techniques_def)
  have m1: "moves b b1 \<and> (b1 = b \<and> \<not> p1 \<or> p1 \<and> count_empty b1 < count_empty b)"
    using naked_singles_moves [OF wf n] .
  then have wf1: "wf_grid b1" using wf by (blast intro: moves_wf)
  have m2: "moves b1 b2 \<and> (b2 = b1 \<and> \<not> p2 \<or> p2 \<and> count_empty b2 < count_empty b1)"
    using hidden_singles_moves [OF wf1 h] .
  from m1 m2 r show ?thesis by (auto intro: moves_trans)
qed

lemma apply_all_completions:
  assumes wf: "wf_grid b" and vb: "is_valid_board b" and a: "apply_all_techniques b = (q, b')"
  shows "is_valid_board b' \<and> (\<forall>s. is_completion b' s = is_completion b s)"
proof -
  obtain p1 b1 where n: "naked_singles b = (p1, b1)" by fastforce
  obtain p2 b2 where h: "hidden_singles b1 = (p2, b2)" by fastforce
  have r: "b' = b2" using a n h stubs_no_progress [of b2] by (simp add: apply_all_techniques_def)
  have wf1: "wf_grid b1" using naked_singles_moves [OF wf n] wf by (blast intro: moves_wf)
  have c1: "is_valid_board b1 \<and> (\<forall>s. is_completion b1 s = is_completion b s)"
    using naked_singles_completions [OF wf vb n] .
  then have "is_valid_board b2 \<and> (\<forall>s. is_completion b2 s = is_completion b1 s)"
    using hidden_singles_completions [OF wf1 _ h] by blast
  with c1 r show ?thesis by simp
qed

lemma advanced_loop_unfold:
  "advanced_loop progress b =
     (if progress \<and> \<not> is_full b then (case apply_all_techniques b of (p, b') \<Rightarrow> advanced_loop p b')
      else Some b)"
  by (rule advanced_loop.simps)

lemma advanced_loop_total:
  "wf_grid b \<Longrightarrow>
   \<exists>b'. advanced_loop p b = Some b' \<and> moves b b' \<and>
        (p \<longrightarrow> is_full b' \<or> apply_all_techniques b' = (False, b')) \<and> (\<not> p \<longrightarrow> b' = b) \<and>
        (is_valid_board b \<longrightarrow> is_valid_board b' \<and> (\<forall>s. is_completion b' s = is_completion b s))"
proof (induction "count_empty b" arbitrary: p b rule: less_induct)
  case less
  show ?case
  proof (cases "p \<and> \<not> is_full b")
    case False
    have "advanced_loop p b = Some b" by (simp only: advanced_loop_unfold [of p b] if_not_P [OF False])
    with False show ?thesis by (auto intro: moves_refl)
  next
    case True
    obtain q b1 where a: "apply_all_techniques b = (q, b1)" by fastforce
    have step: "advanced_loop p b = advanced_loop q b1"
      using True a by (subst advanced_loop_unfold) simp
    have m: "moves b b1 \<and> (b1 = b \<and> \<not> q \<or> q \<and> count_empty b1 < count_empty b)"
      using apply_all_moves [OF less.prems a] .
    have c: "is_valid_board b \<longrightarrow> is_valid_board b1 \<and> (\<forall>s. is_completion b1 s = is_completion b s)"
      using apply_all_completions [OF less.prems _ a] by blast
    show ?thesis
    proof (cases q)
      case False
      with m have b1: "b1 = b" by simp
      have "advanced_loop q b1 = Some b" using False b1 by (subst advanced_loop_unfold) simp
      with step a b1 False True show ?thesis by (auto intro: moves_refl)
    next
      case q: True
      with m have less1: "count_empty b1 < count_empty b" by simp
      have wf1: "wf_grid b1" using m less.prems by (blast intro: moves_wf)
      obtain b' where b': "advanced_loop q b1 = Some b'" "moves b1 b'"
          "q \<longrightarrow> is_full b' \<or> apply_all_techniques b' = (False, b')"
          "is_valid_board b1 \<longrightarrow> is_valid_board b' \<and> (\<forall>s. is_completion b' s = is_completion b1 s)"
        using less.hyps [OF less1 wf1, of q] by blast
      have "moves b b'" using b'(2) m by (blast intro: moves_trans)
      with b' step q c True show ?thesis by auto
    qed
  qed
qed

lemma empty_board_ok: "wf_grid sudoku_board \<and> is_valid_board sudoku_board"
  by code_simp

subsection \<open>Correctness of the propagation solver\<close>


text \<open>C16: getPossibleValues returns, in ascending order without repetition (std::set), exactly the
  digits 1..9 that no cell of the same row, column or box holds, for an empty cell in range, and
  nothing for a filled or out-of-range cell.\<close>
theorem get_possible_values_correct:
  "sorted_wrt (<) (get_possible_values b (int r) (int c)) \<and>
   set (get_possible_values b (int r) (int c)) =
     {v. r < 9 \<and> c < 9 \<and> 1 \<le> v \<and> v \<le> 9 \<and> b ! r ! c = 0 \<and>
         (\<forall>k<9. \<forall>l<9. same_unit (r, c) (k, l) \<longrightarrow> b ! k ! l \<noteq> v)}"
  by (simp add: sorted_get_possible_values set_get_possible_values valid_move_iff)

theorem get_possible_values_correct_witness:
  "set (get_possible_values sudoku_board 4 7) = {1..9}"
proof -
  have "set (get_possible_values sudoku_board (int 4) (int 7)) =
     {v. (4::nat) < 9 \<and> (7::nat) < 9 \<and> 1 \<le> v \<and> v \<le> 9 \<and> sudoku_board ! 4 ! 7 = 0 \<and>
         (\<forall>k<9. \<forall>l<9. same_unit (4, 7) (k, l) \<longrightarrow> sudoku_board ! k ! l \<noteq> v)}"
    using get_possible_values_correct [of sudoku_board 4 7] by blast
  then show ?thesis by (auto simp: sudoku_board_def)
qed

text \<open>C13: nakedSingles places only forced digits: every write is a valid move on the board
  of the moment, the board stays valid, the set of completions is unchanged, and progress is
  reported exactly when the board changed.\<close>
theorem naked_singles_sound:
  assumes "wf_grid b" "is_valid_board b" "naked_singles b = (p, b')"
  shows "moves b b' \<and> is_valid_board b' \<and> (\<forall>s. is_completion b' s = is_completion b s) \<and>
         p = (b' \<noteq> b)"
  using naked_singles_moves [OF assms(1,3)] naked_singles_completions [OF assms] by auto

theorem naked_singles_sound_witness:
  "\<exists>p b'. naked_singles sudoku_board = (p, b') \<and> moves sudoku_board b' \<and> is_valid_board b'"
proof -
  obtain p b' where n: "naked_singles sudoku_board = (p, b')" by fastforce
  with naked_singles_sound [OF _ _ n] empty_board_ok show ?thesis by blast
qed

text \<open>C14: hiddenSingles places only forced digits: every write is a valid move on the board
  of the moment, the board stays valid, the set of completions is unchanged, and progress is
  reported exactly when the board changed.\<close>
theorem hidden_singles_sound:
  assumes "wf_grid b" "is_valid_board b" "hidden_singles b = (p, b')"
  shows "moves b b' \<and> is_valid_board b' \<and> (\<forall>s. is_completion b' s = is_completion b s) \<and>
         p = (b' \<noteq> b)"
  using hidden_singles_moves [OF assms(1,3)] hidden_singles_completions [OF assms] by auto

theorem hidden_singles_sound_witness:
  "\<exists>p b'. hidden_singles sudoku_board = (p, b') \<and> moves sudoku_board b' \<and> is_valid_board b'"
proof -
  obtain p b' where n: "hidden_singles sudoku_board = (p, b')" by fastforce
  with hidden_singles_sound [OF _ _ n] empty_board_ok show ?thesis by blast
qed

text \<open>C12: solveWithAdvancedTechniques returns on every well-formed board (the driver loop has
  no bound in the code; every pass that reports progress fills a cell). The result is reached by
  valid moves only, the flag returned is isFull of the final board, and the final board is full or
  a fixpoint of applyAllTechniques.\<close>
theorem solve_with_advanced_terminates:
  "wf_grid b \<Longrightarrow>
   \<exists>b'. solve_with_advanced_techniques b = Some (is_full b', b') \<and> moves b b' \<and>
        (is_full b' \<or> apply_all_techniques b' = (False, b'))"
  using advanced_loop_total [of b True] by (auto simp: solve_with_advanced_techniques_def)

theorem solve_with_advanced_terminates_witness:
  "\<exists>b'. solve_with_advanced_techniques sudoku_board = Some (is_full b', b') \<and> moves sudoku_board b'"
  using solve_with_advanced_terminates [OF wf_sudoku_board] by blast

text \<open>C11: On a valid board, solveWithAdvancedTechniques never guesses: the final board is valid,
  keeps every given, has exactly the completions of the input, and when it reports success the
  final board is the one and only completion of the input.\<close>
theorem solve_with_advanced_sound:
  assumes wf: "wf_grid b" and vb: "is_valid_board b"
  shows "\<exists>ok b'. solve_with_advanced_techniques b = Some (ok, b') \<and> is_valid_board b' \<and>
           (\<forall>i<9. \<forall>j<9. b ! i ! j \<noteq> 0 \<longrightarrow> b' ! i ! j = b ! i ! j) \<and>
           (\<forall>s. is_completion b' s = is_completion b s) \<and>
           (ok \<longrightarrow> (\<forall>s. is_completion b s = (s = b')))"
proof -
  obtain b' where b': "advanced_loop True b = Some b'" "moves b b'" "is_valid_board b'"
      "\<forall>s. is_completion b' s = is_completion b s"
    using advanced_loop_total [OF wf, of True] vb by blast
  have wf': "wf_grid b'" using moves_wf [OF b'(2) wf] .
  have keep: "\<forall>i<9. \<forall>j<9. b ! i ! j \<noteq> 0 \<longrightarrow> b' ! i ! j = b ! i ! j"
    using moves_keeps [OF b'(2) wf] by blast
  have "is_full b' \<longrightarrow> (\<forall>s. is_completion b s = (s = b'))"
    using b'(4) completion_full [OF wf'] by simp
  with b' keep show ?thesis by (auto simp: solve_with_advanced_techniques_def)
qed

theorem solve_with_advanced_sound_witness:
  "\<exists>ok b'. solve_with_advanced_techniques sudoku_board = Some (ok, b') \<and> is_valid_board b' \<and>
           (\<forall>s. is_completion b' s = is_completion sudoku_board s)"
  using solve_with_advanced_sound [of sudoku_board] empty_board_ok by blast

text \<open>C15: Calling solveWithAdvancedTechniques a second time on its own result changes nothing and
  reports the same outcome.\<close>
theorem solve_with_advanced_idempotent:
  "wf_grid b \<Longrightarrow>
   \<exists>ok b'. solve_with_advanced_techniques b = Some (ok, b') \<and>
           solve_with_advanced_techniques b' = Some (ok, b')"
proof -
  assume wf: "wf_grid b"
  obtain b' where b': "advanced_loop True b = Some b'" "is_full b' \<or> apply_all_techniques b' = (False, b')"
    using advanced_loop_total [OF wf, of True] by blast
  have "advanced_loop True b' = Some b'"
  proof (cases "is_full b'")
    case True
    then show ?thesis by (subst advanced_loop_unfold) simp
  next
    case False
    with b'(2) have a: "apply_all_techniques b' = (False, b')" by simp
    have "advanced_loop False b' = Some b'" by (subst advanced_loop_unfold) simp
    with False a show ?thesis by (subst advanced_loop_unfold) simp
  qed
  with b'(1) show ?thesis by (simp add: solve_with_advanced_techniques_def)
qed

theorem solve_with_advanced_idempotent_witness:
  "\<exists>ok b'. solve_with_advanced_techniques sudoku_board = Some (ok, b') \<and>
           solve_with_advanced_techniques b' = Some (ok, b')"
  using solve_with_advanced_idempotent empty_board_ok by blast

end
