(* ===== verification/Board_IO.thy ===== *)
theory Board_IO
  imports Board
begin

text \<open>
  File and console I/O of \<open>SudokuBoard\<close> (src/Sudoku/src/SudokuBoard.cpp,
  \<open>printBoard\<close>, \<open>loadFromFile\<close>, \<open>saveToFile\<close>). A stream is the list of characters
  still to be read. Formatted input \<open>stream >> n\<close> for an \<open>int n\<close> follows the C++11
  library: the sentry skips leading white space, and if it reaches the end of the stream
  the extraction fails without touching the target (\<open>NoInput\<close>); otherwise an optional
  sign and the longest run of decimal digits are consumed; without a digit the extraction
  fails and stores 0, and a value outside the 32-bit range fails and stores the nearest
  bound (\<open>read_int\<close>).
  Output \<open>stream << n\<close> is the decimal text of \<open>n\<close> (\<open>print_int\<close>). The file system is a
  map from file names to contents; whether a file can be opened for writing is a
  predicate of the environment.
\<close>

definition newline :: string where
  "newline = [CHR 0x0A]"

definition is_space :: "char \<Rightarrow> bool" where
  "is_space c = (of_char c \<in> {9, 10, 11, 12, 13, 32 :: nat})"

definition is_digit :: "char \<Rightarrow> bool" where
  "is_digit c = (48 \<le> (of_char c :: nat) \<and> (of_char c :: nat) \<le> 57)"

definition digits_value :: "string \<Rightarrow> int" where
  "digits_value ds = foldl (\<lambda>n d. 10 * n + (int (of_char d) - 48)) 0 ds"

definition int_max :: int where
  "int_max = 2147483647"

definition int_min :: int where
  "int_min = -2147483648"

datatype read_result = Parsed int string | Failed int string | NoInput string

definition read_int :: "string \<Rightarrow> read_result" where
  "read_int s =
     (if dropWhile is_space s = [] then NoInput [] else
      let s1 = dropWhile is_space s;
          (neg, s2) = (case s1 of
                         [] \<Rightarrow> (False, [])
                       | c # r \<Rightarrow> if c = CHR ''-'' then (True, r)
                                  else if c = CHR ''+'' then (False, r) else (False, s1));
          ds = takeWhile is_digit s2;
          rest = dropWhile is_digit s2;
          v = (if neg then - digits_value ds else digits_value ds)
      in if ds = [] then Failed 0 rest
         else if int_max < v then Failed int_max rest
         else if v < int_min then Failed int_min rest
         else Parsed v rest)"

fun nat_digits :: "nat \<Rightarrow> string" where
  "nat_digits n =
     (if n < 10 then [char_of (48 + n)] else nat_digits (n div 10) @ [char_of (48 + n mod 10)])"

declare nat_digits.simps [simp del]

definition print_int :: "int \<Rightarrow> string" where
  "print_int i = (if i < 0 then CHR ''-'' # nat_digits (nat (- i)) else nat_digits (nat i))"

definition separator_line :: string where
  "separator_line = ''-------------------------------------'' @ newline"

definition render_row :: "int list \<Rightarrow> string" where
  "render_row row =
     concat (map (\<lambda>j. (if row ! j = 0 then ''. '' else print_int (row ! j) @ '' '') @
                      (if j mod 3 = 2 \<and> j \<noteq> 8 then ''| '' else [])) [0..<9]) @ newline"

definition print_board :: "grid \<Rightarrow> string" where
  "print_board b =
     separator_line @
     concat (map (\<lambda>i. render_row (b ! i) @ (if i mod 3 = 2 \<and> i \<noteq> 8 then separator_line else []))
                 [0..<9]) @
     separator_line"

fun load_cells :: "grid \<Rightarrow> cell list \<Rightarrow> string \<Rightarrow> bool \<times> grid" where
  "load_cells b [] s = (True, b)"
| "load_cells b ((i, j) # ps) s =
     (case read_int s of
        Failed v _ \<Rightarrow> (False, set_cell b i j v)
      | NoInput _ \<Rightarrow> (False, b)
      | Parsed v rest \<Rightarrow> load_cells (set_cell b i j v) ps rest)"

definition load_from_file :: "(string \<Rightarrow> string option) \<Rightarrow> string \<Rightarrow> grid \<Rightarrow> bool \<times> grid" where
  "load_from_file files filename b =
     (case files filename of None \<Rightarrow> (False, b) | Some content \<Rightarrow> load_cells b cells content)"

definition cell_sep :: "nat \<Rightarrow> string" where
  "cell_sep j = (if j \<noteq> 8 then '' '' else newline)"

definition save_row :: "int list \<Rightarrow> string" where
  "save_row row = concat (map (\<lambda>j. print_int (row ! j) @ (if j \<noteq> 8 then '' '' else [])) [0..<9]) @ newline"

definition board_text :: "grid \<Rightarrow> string" where
  "board_text b = concat (map (\<lambda>i. save_row (b ! i)) [0..<9])"

definition save_to_file ::
  "(string \<Rightarrow> bool) \<Rightarrow> (string \<Rightarrow> string option) \<Rightarrow> string \<Rightarrow> grid \<Rightarrow> bool \<times> (string \<Rightarrow> string option)" where
  "save_to_file writable files filename b =
     (if writable filename then (True, files(filename \<mapsto> board_text b)) else (False, files))"

text \<open>
  The text that \<open>saveToFile\<close> writes for a list of cells, one integer and its separator per
  cell (a specification helper for the round trip).
\<close>

definition cells_text :: "grid \<Rightarrow> cell list \<Rightarrow> string" where
  "cells_text b ps = concat (map (\<lambda>(i, j). print_int (b ! i ! j) @ cell_sep j) ps)"

subsection \<open>Reading and printing integers\<close>



lemma of_char_digit: "(n::nat) < 10 \<Longrightarrow> (of_char (char_of (48 + n)) :: nat) = 48 + n"
  by (simp add: of_char_of)

lemma nat_digits_facts:
  "nat_digits n \<noteq> [] \<and> (\<forall>c\<in>set (nat_digits n). is_digit c) \<and> digits_value (nat_digits n) = int n"
proof (induction n rule: nat_digits.induct)
  case (1 n)
  show ?case
  proof (cases "n < 10")
    case True
    then show ?thesis by (simp add: nat_digits.simps [of n] is_digit_def digits_value_def of_char_digit)
  next
    case False
    have m: "n mod 10 < 10" by simp
    have "digits_value (nat_digits (n div 10) @ [char_of (48 + n mod 10)]) =
          10 * int (n div 10) + int (n mod 10)"
      using 1 False m by (simp add: digits_value_def of_char_digit)
    also have "\<dots> = int (10 * (n div 10) + n mod 10)" by (simp only: of_nat_add of_nat_mult of_nat_numeral)
    also have "\<dots> = int n" by simp
    finally show ?thesis
      using 1 False m by (simp add: nat_digits.simps [of n] is_digit_def of_char_digit)
  qed
qed

lemma not_digit_space: "is_digit c \<Longrightarrow> \<not> is_space c"
  by (auto simp: is_digit_def is_space_def)

lemma sign_chars: "\<not> is_digit CHR ''-''" "\<not> is_space CHR ''-''" "CHR ''-'' \<noteq> CHR ''+''"
  by (simp_all add: is_digit_def is_space_def)

lemma read_digits:
  assumes s: "s = [] \<or> \<not> is_digit (hd s)"
  shows "takeWhile is_digit (nat_digits n @ s) = nat_digits n \<and> dropWhile is_digit (nat_digits n @ s) = s"
proof -
  have d: "\<forall>c\<in>set (nat_digits n). is_digit c" using nat_digits_facts by blast
  have "takeWhile is_digit s = [] \<and> dropWhile is_digit s = s" using s by (cases s) auto
  with d show ?thesis by (simp add: takeWhile_append2 dropWhile_append2)
qed

lemma nat_digits_hd:
  obtains c cs where "nat_digits n = c # cs" "is_digit c"
  using nat_digits_facts [of n] by (cases "nat_digits n") auto

lemma read_int_print:
  assumes range: "int_min \<le> i" "i \<le> int_max" and s: "s = [] \<or> \<not> is_digit (hd s)"
  shows "read_int (print_int i @ s) = Parsed i s"
proof (cases "i < 0")
  case True
  let ?ds = "nat_digits (nat (- i))"
  have rd: "takeWhile is_digit (?ds @ s) = ?ds" "dropWhile is_digit (?ds @ s) = s"
    using read_digits [OF s] by simp_all
  have ne: "?ds \<noteq> []" and v: "digits_value ?ds = int (nat (- i))" using nat_digits_facts by blast+
  show ?thesis
    using True rd ne v range sign_chars by (simp add: read_int_def print_int_def)
next
  case False
  let ?ds = "nat_digits (nat i)"
  obtain c cs where hd: "?ds = c # cs" "is_digit c" by (rule nat_digits_hd)
  have rd: "takeWhile is_digit (?ds @ s) = ?ds" "dropWhile is_digit (?ds @ s) = s"
    using read_digits [OF s] by simp_all
  have v: "digits_value ?ds = int (nat i)" using nat_digits_facts by blast
  have c: "\<not> is_space c" "c \<noteq> CHR ''-''" "c \<noteq> CHR ''+''"
    using hd(2) by (auto simp: is_digit_def is_space_def)
  show ?thesis
    using False rd v range c hd(1) by (simp add: read_int_def print_int_def)
qed

subsection \<open>Loading what was saved\<close>


lemma read_int_spaces: "(\<And>c. c \<in> set w \<Longrightarrow> is_space c) \<Longrightarrow> read_int (w @ s) = read_int s"
  by (simp add: read_int_def dropWhile_append2)

lemma cell_sep_spaces: "c \<in> set (cell_sep j) \<Longrightarrow> is_space c"
  by (auto simp: cell_sep_def newline_def is_space_def split: if_splits)

lemma cell_sep_not_digit: "\<not> is_digit (hd (cell_sep j @ t))"
  by (simp add: cell_sep_def newline_def is_digit_def)

lemma load_cells_spaces:
  "(\<And>c. c \<in> set w \<Longrightarrow> is_space c) \<Longrightarrow> load_cells g ps (w @ t) = load_cells g ps t"
  by (cases ps) (auto simp: read_int_spaces)

lemma load_cells_text:
  assumes "\<And>i j. (i, j) \<in> set ps \<Longrightarrow> int_min \<le> b ! i ! j \<and> b ! i ! j \<le> int_max"
  shows "load_cells g (ps @ qs) (cells_text b ps @ s) =
         load_cells (fold (\<lambda>(i, j) g. set_cell g i j (b ! i ! j)) ps g) qs s"
  using assms
proof (induction ps arbitrary: g)
  case Nil
  then show ?case by (simp add: cells_text_def)
next
  case (Cons p ps)
  obtain i j where p: "p = (i, j)" by fastforce
  have r: "int_min \<le> b ! i ! j" "b ! i ! j \<le> int_max" using Cons.prems p by auto
  let ?t = "cell_sep j @ cells_text b ps @ s"
  have "read_int (print_int (b ! i ! j) @ ?t) = Parsed (b ! i ! j) ?t"
    using read_int_print [OF r] cell_sep_not_digit by blast
  then have "load_cells g ((p # ps) @ qs) (cells_text b (p # ps) @ s) =
             load_cells (set_cell g i j (b ! i ! j)) (ps @ qs) ?t"
    by (simp add: p cells_text_def)
  also have "\<dots> = load_cells (set_cell g i j (b ! i ! j)) (ps @ qs) (cells_text b ps @ s)"
    by (simp add: load_cells_spaces cell_sep_spaces)
  also have "\<dots> = load_cells (fold (\<lambda>(i, j) g. set_cell g i j (b ! i ! j)) ps (set_cell g i j (b ! i ! j))) qs s"
    using Cons.IH Cons.prems by simp
  finally show ?case by (simp add: p)
qed

lemma save_row_sep: "save_row row = concat (map (\<lambda>j. print_int (row ! j) @ cell_sep j) [0..<9])"
  by (simp add: save_row_def cell_sep_def upt_rec)

lemma concat_concat_map: "concat (concat xss) = concat (map concat xss)"
  by (induction xss) simp_all

lemma board_text_cells: "board_text b = cells_text b cells"
  by (simp add: board_text_def save_row_sep cells_text_def cells_def map_concat comp_def concat_concat_map)

subsection \<open>Properties of the board files\<close>


lemma fold_set_all:
  assumes "wf_grid g" "wf_grid b"
  shows "fold (\<lambda>(i, j) g. set_cell g i j (b ! i ! j)) cells g = b"
proof (rule grid_eqI)
  show "wf_grid (fold (\<lambda>(i, j) g. set_cell g i j (b ! i ! j)) cells g)"
    using assms(1) by (rule wf_fold_set)
  show "wf_grid b" by (rule assms(2))
  fix i j :: nat assume "i < 9" "j < 9"
  with assms(1) show "fold (\<lambda>(i, j) g. set_cell g i j (b ! i ! j)) cells g ! i ! j = b ! i ! j"
    by (simp add: fold_set_nth)
qed

lemma range_cells:
  "list_all (\<lambda>(i, j). int_min \<le> b ! i ! j \<and> b ! i ! j \<le> int_max) cells \<Longrightarrow>
   (i, j) \<in> set ps \<Longrightarrow> set ps \<subseteq> set cells \<Longrightarrow> int_min \<le> b ! i ! j \<and> b ! i ! j \<le> int_max"
  by (auto simp: list_all_iff)

lemma load_board_text:
  assumes wf: "wf_grid b" "wf_grid g"
    and range: "list_all (\<lambda>(i, j). int_min \<le> b ! i ! j \<and> b ! i ! j \<le> int_max) cells"
  shows "load_cells g cells (board_text b) = (True, b)"
proof -
  have "load_cells g (cells @ []) (cells_text b cells @ []) =
        load_cells (fold (\<lambda>(i, j) g. set_cell g i j (b ! i ! j)) cells g) [] []"
    using range by (intro load_cells_text) (auto simp: list_all_iff)
  then show ?thesis by (simp add: board_text_cells fold_set_all [OF wf(2,1)])
qed

text \<open>C17: Saving a board with saveToFile and loading the file back with loadFromFile restores
  the board exactly, whatever the board held before the load, for every well-formed board whose
  cells are 32-bit integers.\<close>
theorem save_load_roundtrip:
  assumes wf: "wf_grid b" "wf_grid g" and w: "writable name"
    and range: "list_all (\<lambda>(i, j). int_min \<le> b ! i ! j \<and> b ! i ! j \<le> int_max) cells"
  shows "\<exists>files'. save_to_file writable files name b = (True, files') \<and>
                 load_from_file files' name g = (True, b)"
  using load_board_text [OF wf range] w by (simp add: save_to_file_def load_from_file_def)

theorem save_load_roundtrip_witness:
  "\<exists>files'. save_to_file (\<lambda>_. True) Map.empty ''puzzle.txt'' (set_cell sudoku_board 2 3 7) = (True, files') \<and>
            load_from_file files' ''puzzle.txt'' sudoku_board = (True, set_cell sudoku_board 2 3 7)"
proof -
  have "wf_grid (set_cell sudoku_board 2 3 7)" by (rule wf_set_cell [OF wf_sudoku_board])
  moreover have "list_all (\<lambda>(i, j). int_min \<le> set_cell sudoku_board 2 3 7 ! i ! j \<and>
                    set_cell sudoku_board 2 3 7 ! i ! j \<le> int_max) cells" by code_simp
  ultimately show ?thesis
    using save_load_roundtrip [of "set_cell sudoku_board 2 3 7" sudoku_board "\<lambda>_. True" "''puzzle.txt''" Map.empty]
      wf_sudoku_board by blast
qed

lemma read_int_at_end: "list_all is_space s \<Longrightarrow> read_int s = NoInput []"
  by (simp add: read_int_def list_all_iff)

lemma read_int_junk:
  assumes "\<not> is_digit c" "\<not> is_space c" "c \<noteq> CHR ''-''" "c \<noteq> CHR ''+''"
  shows "read_int (c # rest) = Failed 0 (c # rest)"
  using assms by (simp add: read_int_def)

text \<open>C18: Loading a file that holds only the first k < 81 numbers of a board reports failure and
  leaves a partly loaded board: the cells before the missing one hold the file's values and every
  other cell, the missing one included, keeps its old value (at the end of the file the extraction
  does not assign). If instead a token that is not a number follows the k numbers, the extraction
  stores 0 in cell k before the load fails.\<close>
theorem load_truncated:
  assumes k: "k < 81"
    and range: "list_all (\<lambda>(i, j). int_min \<le> b ! i ! j \<and> b ! i ! j \<le> int_max) cells"
    and junk: "\<not> is_digit c" "\<not> is_space c" "c \<noteq> CHR ''-''" "c \<noteq> CHR ''+''"
  shows "load_from_file (fs(name \<mapsto> cells_text b (take k cells))) name g =
           (False, fold (\<lambda>(i, j) g. set_cell g i j (b ! i ! j)) (take k cells) g) \<and>
         load_from_file (fs(name \<mapsto> cells_text b (take k cells) @ c # rest)) name g =
           (False, set_cell (fold (\<lambda>(i, j) g. set_cell g i j (b ! i ! j)) (take k cells) g)
                            (fst (cells ! k)) (snd (cells ! k)) 0)"
proof -
  let ?G = "fold (\<lambda>(i, j) g. set_cell g i j (b ! i ! j)) (take k cells) g"
  have sub: "set (take k cells) \<subseteq> set cells" by (rule set_take_subset)
  have d: "drop k cells = cells ! k # drop (Suc k) cells" using k by (simp add: Cons_nth_drop_Suc)
  have pre: "load_cells g cells (cells_text b (take k cells) @ t) = load_cells ?G (drop k cells) t" for t
  proof -
    have "load_cells g cells (cells_text b (take k cells) @ t) =
          load_cells g (take k cells @ drop k cells) (cells_text b (take k cells) @ t)" by simp
    also have "\<dots> = load_cells ?G (drop k cells) t"
      using range_cells [OF range _ sub] by (intro load_cells_text) blast
    finally show ?thesis .
  qed
  have e: "load_cells ?G (drop k cells) [] = (False, ?G)"
    using read_int_at_end [of "[]"] by (cases "cells ! k") (simp add: d)
  have f: "load_cells ?G (drop k cells) (c # rest) = (False, set_cell ?G (fst (cells ! k)) (snd (cells ! k)) 0)"
    using read_int_junk [OF junk, of rest] by (cases "cells ! k") (simp add: d)
  show ?thesis using pre [of "[]"] pre [of "c # rest"] e f by (simp add: load_from_file_def)
qed

theorem load_truncated_witness:
  "load_from_file (Map.empty(''f'' \<mapsto> cells_text (set_cell sudoku_board 0 1 4) (take 2 cells))) ''f''
       (set_cell sudoku_board 0 2 7) =
     (False, fold (\<lambda>(i, j) g. set_cell g i j (set_cell sudoku_board 0 1 4 ! i ! j)) (take 2 cells)
               (set_cell sudoku_board 0 2 7)) \<and>
   load_from_file (Map.empty(''f'' \<mapsto> cells_text (set_cell sudoku_board 0 1 4) (take 2 cells) @ ''x'')) ''f''
       (set_cell sudoku_board 0 2 7) =
     (False, set_cell (fold (\<lambda>(i, j) g. set_cell g i j (set_cell sudoku_board 0 1 4 ! i ! j)) (take 2 cells)
               (set_cell sudoku_board 0 2 7)) (fst (cells ! 2)) (snd (cells ! 2)) 0)"
proof -
  have r: "list_all (\<lambda>(i, j). int_min \<le> set_cell sudoku_board 0 1 4 ! i ! j \<and>
          set_cell sudoku_board 0 1 4 ! i ! j \<le> int_max) cells" by code_simp
  have c: "\<not> is_digit (CHR ''x'')" "\<not> is_space (CHR ''x'')" by (simp_all add: is_digit_def is_space_def)
  show ?thesis
    using load_truncated [OF _ r c, where k = 2 and fs = Map.empty and name = "''f''" and rest = "[]"
        and g = "set_cell sudoku_board 0 2 7"] by simp
qed

end
