(* ===== verification/Game.thy ===== *)
theory Game
  imports Generator Propagation Board_IO
begin

text \<open>
  The console game \<open>SudokuGame\<close> (src/Sudoku/src/SudokuGame.cpp, src/SudokuGame.hpp).
  The object state (\<open>board\<close>, \<open>gameRunning\<close>) is extended by the parts of the process the
  methods touch: the characters still unread on standard input, the text written to standard
  output, the file system, and the state of the generator's random source. Every method is
  a function on this record; the ones that call a search that may not return (the solvers,
  the generator) return an option. The two build flags \<open>BUILD_GENERATOR\<close> and
  \<open>BUILD_ADVANCED\<close> are a record \<open>build\<close>. The main loop \<open>run\<close> is a
  \<open>partial_function (option)\<close>: nothing bounds it but the user's exit choice.
  When an extraction fails at the end of input the C++ variable stays unassigned; every
  caller ignores it after a failure, and \<open>get_integer_input\<close> returns 0 in its place.
\<close>

record build =
  build_generator :: bool
  build_advanced :: bool

record 's game =
  board :: grid
  game_running :: bool
  stdin :: string
  stdout :: string
  files :: "string \<Rightarrow> string option"
  writable :: "string \<Rightarrow> bool"
  rng :: 's

definition say :: "'s game \<Rightarrow> string \<Rightarrow> 's game" where
  "say st text = st\<lparr>stdout := stdout st @ text\<rparr>"

definition ignore_line :: "string \<Rightarrow> string" where
  "ignore_line s = drop 1 (dropWhile (\<lambda>c. c \<noteq> CHR 0x0A) s)"

definition read_word :: "string \<Rightarrow> string \<times> string" where
  "read_word s = (let s1 = dropWhile is_space s in (takeWhile (\<lambda>c. \<not> is_space c) s1, dropWhile (\<lambda>c. \<not> is_space c) s1))"

definition get_integer_input :: "'s game \<Rightarrow> string \<Rightarrow> bool \<times> int \<times> 's game" where
  "get_integer_input st prompt =
     (let st1 = (if prompt \<noteq> [] then say st prompt else st) in
      case read_int (stdin st1) of
        Parsed v rest \<Rightarrow> (True, v, st1\<lparr>stdin := rest\<rparr>)
      | Failed v rest \<Rightarrow> (False, v, st1\<lparr>stdin := ignore_line rest\<rparr>)
      | NoInput rest \<Rightarrow> (False, 0, st1\<lparr>stdin := ignore_line rest\<rparr>))"

definition get_menu_choice :: "'s game \<Rightarrow> int \<times> 's game" where
  "get_menu_choice st =
     (case get_integer_input st [] of (ok, choice, st') \<Rightarrow> (if ok then choice else -1, st'))"

definition is_valid_range :: "int \<Rightarrow> int \<Rightarrow> int \<Rightarrow> bool" where
  "is_valid_range value min_v max_v = (value \<ge> min_v \<and> value \<le> max_v)"

definition exit_option :: "build \<Rightarrow> int" where
  "exit_option cfg = (if build_advanced cfg then 7 else if build_generator cfg then 6 else 5)"

definition display_menu :: "build \<Rightarrow> string" where
  "display_menu cfg =
     ''1) Enter a move'' @ newline @ ''2) Solve automatically'' @ newline @
     ''3) Load puzzle from file'' @ newline @ ''4) Save current puzzle to file'' @ newline @
     (if build_generator cfg then ''5) Generate new puzzle'' @ newline else []) @
     (if build_advanced cfg then ''6) Solve with advanced techniques'' @ newline else []) @
     print_int (exit_option cfg) @ '') Exit'' @ newline @ ''Choice: ''"

definition read_move :: "string \<Rightarrow> string + (int \<times> int \<times> int \<times> string)" where
  "read_move s =
     (case read_int s of
        Failed _ r \<Rightarrow> Inl r
      | NoInput r \<Rightarrow> Inl r
      | Parsed row r1 \<Rightarrow>
          (case read_int r1 of
             Failed _ r \<Rightarrow> Inl r
           | NoInput r \<Rightarrow> Inl r
           | Parsed col r2 \<Rightarrow>
               (case read_int r2 of
                  Failed _ r \<Rightarrow> Inl r
                | NoInput r \<Rightarrow> Inl r
                | Parsed value r3 \<Rightarrow> Inr (row, col, value, r3))))"

definition invalid_move_text :: string where
  "invalid_move_text =
     ''Invalid move. That cell might be occupied or the placement breaks Sudoku rules.'' @ newline @ newline"

definition enter_move :: "'s game \<Rightarrow> 's game" where
  "enter_move st0 =
     (let st = say st0 ''Enter row (1-9), column (1-9), and value (1-9): '' in
      case read_move (stdin st) of
        Inl rest \<Rightarrow>
          say (st\<lparr>stdin := ignore_line rest\<rparr>) (''Invalid input. Please enter three integers.'' @ newline @ newline)
      | Inr (row, col, value, rest) \<Rightarrow>
          (let st = st\<lparr>stdin := rest\<rparr> in
           if \<not> is_valid_range row 1 9 then say st (''Row must be between 1 and 9.'' @ newline @ newline)
           else if \<not> is_valid_range col 1 9 then say st (''Column must be between 1 and 9.'' @ newline @ newline)
           else if \<not> is_valid_range value 1 9 then say st (''Value must be between 1 and 9.'' @ newline @ newline)
           else
             (let row = row - 1; col = col - 1 in
              if \<not> is_empty (board st) row col \<or> \<not> is_valid_move (board st) row col value
              then say st invalid_move_text
              else
                (case set_value (board st) row col value of
                   (True, b') \<Rightarrow>
                     say (st\<lparr>board := b'\<rparr>)
                       (''Move accepted!'' @ newline @ newline @
                        (if is_full b' then ''Great job! The Sudoku is solved!'' @ newline @ newline else []))
                 | (False, b') \<Rightarrow> say (st\<lparr>board := b'\<rparr>) invalid_move_text))))"

definition solve_automatically :: "'s game \<Rightarrow> 's game option" where
  "solve_automatically st0 =
     (let st = say st0 (''Solving puzzle...'' @ newline) in
      do {
        (ok, b') \<leftarrow> solve (board st);
        Some (say (st\<lparr>board := b'\<rparr>)
               (if ok then ''Puzzle solved!'' @ newline @ newline
                else ''No solution found. The puzzle may be unsolvable.'' @ newline @ newline))
      })"

definition load_puzzle_from_file :: "'s game \<Rightarrow> 's game" where
  "load_puzzle_from_file st0 =
     (let st = say st0 ''Enter filename: '';
          (filename, rest) = read_word (stdin st);
          (ok, b') = load_from_file (files st) filename (board st)
      in say (st\<lparr>stdin := rest, board := b'\<rparr>)
           (if ok then ''Puzzle loaded successfully!'' @ newline @ newline
            else ''Failed to load puzzle from file. Check filename and format.'' @ newline @ newline))"

definition save_puzzle_to_file :: "'s game \<Rightarrow> 's game" where
  "save_puzzle_to_file st0 =
     (let st = say st0 ''Enter filename to save puzzle to: '';
          (filename, rest) = read_word (stdin st);
          (ok, files') = save_to_file (writable st) (files st) filename (board st)
      in say (st\<lparr>stdin := rest, files := files'\<rparr>)
           (if ok then ''Puzzle saved to '' @ filename @ ''!'' @ newline @ newline
            else ''Failed to save puzzle to file.'' @ newline @ newline))"

definition quit :: "'s game \<Rightarrow> 's game" where
  "quit st = say (st\<lparr>game_running := False\<rparr>) (''Thank you for playing Sudoku!'' @ newline)"

fun difficulty_of_choice :: "int \<Rightarrow> difficulty" where
  "difficulty_of_choice c =
     (if c = 1 then EASY else if c = 2 then MEDIUM else if c = 3 then HARD else MEDIUM)"

definition generate_new_puzzle :: "'s draw \<Rightarrow> 's game \<Rightarrow> 's game option" where
  "generate_new_puzzle draw st0 =
     (let st = say st0 (''Select difficulty:'' @ newline @ ''1) Easy'' @ newline @ ''2) Medium'' @ newline @
                        ''3) Hard'' @ newline @ ''Choice: '');
          (ok, c, st) = get_integer_input st [];
          (c, st) = (if \<not> ok \<or> c < 1 \<or> c > 3
                     then (2, say st (''Invalid choice. Generating medium difficulty puzzle.'' @ newline))
                     else (c, st));
          st = say st (''Generating new puzzle...'' @ newline)
      in do {
           (b', s') \<leftarrow> generate_puzzle draw (difficulty_of_choice c) (rng st);
           Some (say (st\<lparr>board := b', rng := s'\<rparr>) (''New puzzle generated!'' @ newline @ newline))
         })"

definition solve_with_advanced_game :: "'s game \<Rightarrow> 's game option" where
  "solve_with_advanced_game st0 =
     (let st = say st0 (''Solving with advanced techniques...'' @ newline) in
      do {
        (ok, b') \<leftarrow> solve_with_advanced_techniques (board st);
        Some (say (st\<lparr>board := b'\<rparr>)
               (if ok then ''Puzzle solved using advanced techniques!'' @ newline @ newline
                else ''Advanced techniques couldn't solve the puzzle completely.'' @ newline @
                     ''You may need to use backtracking or make manual moves.'' @ newline @ newline))
      })"

definition dispatch :: "build \<Rightarrow> 's draw \<Rightarrow> int \<Rightarrow> 's game \<Rightarrow> 's game option" where
  "dispatch cfg draw choice st =
     (if choice = 1 then Some (enter_move st)
      else if choice = 2 then solve_automatically st
      else if choice = 3 then Some (load_puzzle_from_file st)
      else if choice = 4 then Some (save_puzzle_to_file st)
      else if choice = 5 \<and> build_generator cfg then generate_new_puzzle draw st
      else if choice = 6 \<and> build_advanced cfg then solve_with_advanced_game st
      else if choice = exit_option cfg then Some (quit st)
      else Some (say st (''Invalid choice. Please select a valid option.'' @ newline @ newline)))"

definition game_iteration :: "build \<Rightarrow> 's draw \<Rightarrow> 's game \<Rightarrow> 's game option" where
  "game_iteration cfg draw st =
     (case get_menu_choice (say st (print_board (board st) @ display_menu cfg)) of
        (choice, st') \<Rightarrow> dispatch cfg draw choice st')"

partial_function (option) run_loop :: "build \<Rightarrow> 's draw \<Rightarrow> 's game \<Rightarrow> 's game option" where
  "run_loop cfg draw st =
     (if game_running st then do { st' \<leftarrow> game_iteration cfg draw st; run_loop cfg draw st' }
      else Some st)"

definition run :: "build \<Rightarrow> 's draw \<Rightarrow> 's game \<Rightarrow> 's game option" where
  "run cfg draw st = run_loop cfg draw (say st (''Welcome to Sudoku Game!'' @ newline @ newline))"

definition default_puzzle :: grid where
  "default_puzzle =
     [[5, 3, 0, 0, 7, 0, 0, 0, 0],
      [6, 0, 0, 1, 9, 5, 0, 0, 0],
      [0, 9, 8, 0, 0, 0, 0, 6, 0],
      [8, 0, 0, 0, 6, 0, 0, 0, 3],
      [4, 0, 0, 8, 0, 3, 0, 0, 1],
      [7, 0, 0, 0, 2, 0, 0, 0, 6],
      [0, 6, 0, 0, 0, 0, 2, 8, 0],
      [0, 0, 0, 4, 1, 9, 0, 0, 5],
      [0, 0, 0, 0, 8, 0, 0, 7, 9]]"

definition initialize_default_puzzle :: "grid \<Rightarrow> grid" where
  "initialize_default_puzzle b = initialize_board b default_puzzle"

definition new_game :: "string \<Rightarrow> (string \<Rightarrow> string option) \<Rightarrow> (string \<Rightarrow> bool) \<Rightarrow> 's \<Rightarrow> 's game" where
  "new_game input fs w s =
     \<lparr>board = initialize_default_puzzle sudoku_board, game_running = True, stdin = input, stdout = [],
      files = fs, writable = w, rng = s\<rparr>"

text \<open>
  The states a game reaches by menu iterations, starting from a given state, and the build
  with both optional features, used by the examples.
\<close>

inductive reachable :: "build \<Rightarrow> 's draw \<Rightarrow> 's game \<Rightarrow> 's game \<Rightarrow> bool" for cfg draw where
  reach_start: "reachable cfg draw st st"
| reach_step: "reachable cfg draw st0 st \<Longrightarrow> game_running st \<Longrightarrow> game_iteration cfg draw st = Some st' \<Longrightarrow>
               reachable cfg draw st0 st'"

definition full_build :: build where
  "full_build = \<lparr>build_generator = True, build_advanced = True\<rparr>"

text \<open>A file name as \<open>std::cin >> filename\<close> reads it: a non-empty word without white space.\<close>

definition file_name_ok :: "string \<Rightarrow> bool" where
  "file_name_ok name = (name \<noteq> [] \<and> list_all (\<lambda>c. \<not> is_space c) name)"

text \<open>Every file holds the text saveToFile writes for a well-formed valid board.\<close>

definition saved_boards_valid :: "(string \<Rightarrow> string option) \<Rightarrow> bool" where
  "saved_boards_valid fs =
     (\<forall>name text. fs name = Some text \<longrightarrow> (\<exists>b. text = board_text b \<and> wf_grid b \<and> is_valid_board b))"

declare run_loop.simps [code]

subsection \<open>Input and the main loop\<close>


lemma say_simps [simp]:
  "board (say st t) = board st" "game_running (say st t) = game_running st"
  "stdin (say st t) = stdin st" "files (say st t) = files st" "rng (say st t) = rng st"
  "writable (say st t) = writable st"
  by (simp_all add: say_def)

lemma read_int_Nil: "read_int [] = NoInput []"
  by (simp add: read_int_def)

lemma exit_option_cases: "exit_option cfg \<in> {5, 6, 7}"
  by (simp add: exit_option_def)

lemma dispatch_invalid:
  assumes "choice \<notin> {1, 2, 3, 4, 5, 6, exit_option cfg}"
  shows "dispatch cfg draw choice st = Some (say st (''Invalid choice. Please select a valid option.'' @ newline @ newline))"
  using assms by (auto simp: dispatch_def)

lemma game_iteration_eof:
  assumes "stdin st = []"
  shows "\<exists>st'. game_iteration cfg draw st = Some st' \<and> game_running st' = game_running st \<and>
               stdin st' = [] \<and> board st' = board st"
proof -
  let ?st1 = "say st (print_board (board st) @ display_menu cfg)"
  have "get_menu_choice ?st1 = (-1, ?st1\<lparr>stdin := []\<rparr>)"
    using assms by (simp add: get_menu_choice_def get_integer_input_def read_int_Nil ignore_line_def)
  moreover have "-1 \<notin> {1, 2, 3, 4, 5, 6, exit_option cfg}" using exit_option_cases [of cfg] by auto
  ultimately show ?thesis by (simp add: game_iteration_def dispatch_invalid)
qed

lemma run_loop_unfold:
  "run_loop cfg draw st =
     (if game_running st then do { st' \<leftarrow> game_iteration cfg draw st; run_loop cfg draw st' } else Some st)"
  by (rule run_loop.simps)

lemma run_loop_eof_none:
  assumes ret: "run_loop cfg draw st = Some r"
  shows "game_running st \<longrightarrow> stdin st \<noteq> []"
proof (rule run_loop.raw_induct [where P = "\<lambda>cfg draw st r. game_running st \<longrightarrow> stdin st \<noteq> []", OF _ ret])
  fix loop :: "build \<Rightarrow> 'a draw \<Rightarrow> 'a game \<Rightarrow> 'a game option" and cfg draw st r
  assume IH: "\<And>cfg draw st r. loop cfg draw st = Some r \<Longrightarrow> game_running st \<longrightarrow> stdin st \<noteq> []"
    and eq: "(if game_running st then game_iteration cfg draw st \<bind> loop cfg draw else Some st) = Some r"
  show "game_running st \<longrightarrow> stdin st \<noteq> []"
  proof (intro impI notI)
    assume run: "game_running st" and eof: "stdin st = []"
    obtain st' where st': "game_iteration cfg draw st = Some st'" "game_running st'" "stdin st' = []"
      using game_iteration_eof [OF eof, of cfg draw] run by auto
    with run eq have "loop cfg draw st' = Some r" by simp
    with IH st'(2,3) show False by blast
  qed
qed

subsection \<open>Exit and moves\<close>


lemma newline_not_digit: "\<not> is_digit (hd (newline @ s))"
  by (simp add: newline_def is_digit_def)

lemma space_not_digit: "\<not> is_digit (hd ('' '' @ s))"
  by (simp add: is_digit_def)

lemma read_int_print_space:
  "int_min \<le> i \<Longrightarrow> i \<le> int_max \<Longrightarrow> read_int (print_int i @ '' '' @ s) = Parsed i ('' '' @ s)"
  using read_int_print space_not_digit by blast

lemma read_int_skip_space: "read_int (CHR '' '' # s) = read_int s"
  using read_int_spaces [of "'' ''" s] by (simp add: is_space_def)

lemma small_in_range: "1 \<le> i \<Longrightarrow> i \<le> 9 \<Longrightarrow> int_min \<le> i \<and> i \<le> int_max"
  by (simp add: int_min_def int_max_def)

lemma enter_move_board:
  "board (enter_move st) = board st \<or>
   (\<exists>r c v. is_valid_move (board st) (int r) (int c) v \<and> board (enter_move st) = set_cell (board st) r c v)"
  by (auto simp: enter_move_def Let_def set_value_def split: sum.splits prod.splits if_splits
           intro: valid_move_nat)

lemma enter_move_parsed:
  assumes inp: "stdin st = print_int r @ '' '' @ print_int c @ '' '' @ print_int v @ rest"
    and rest: "rest = [] \<or> \<not> is_digit (hd rest)"
    and rng: "1 \<le> r" "r \<le> 9" "1 \<le> c" "c \<le> 9" "1 \<le> v" "v \<le> 9"
  shows "read_move (stdin st) = Inr (r, c, v, rest)"
proof -
  have "read_int (print_int v @ rest) = Parsed v rest"
    using small_in_range [OF rng(5,6)] rest by (intro read_int_print) auto
  moreover have "read_int (print_int c @ '' '' @ print_int v @ rest) = Parsed c ('' '' @ print_int v @ rest)"
    using small_in_range [OF rng(3,4)] by (intro read_int_print_space) auto
  moreover have "read_int (print_int r @ '' '' @ print_int c @ '' '' @ print_int v @ rest) =
                 Parsed r ('' '' @ print_int c @ '' '' @ print_int v @ rest)"
    using small_in_range [OF rng(1,2)] by (intro read_int_print_space) auto
  ultimately show ?thesis using inp by (simp add: read_move_def read_int_skip_space)
qed

lemma enter_move_applies:
  assumes "read_move (stdin st) = Inr (r, c, v, rest)"
    and "1 \<le> r" "r \<le> 9" "1 \<le> c" "c \<le> 9" "1 \<le> v" "v \<le> 9"
  shows "board (enter_move st) =
           (if is_valid_move (board st) (r - 1) (c - 1) v then set_cell (board st) (nat (r - 1)) (nat (c - 1)) v
            else board st) \<and> stdin (enter_move st) = rest"
  using assms by (auto simp: enter_move_def Let_def set_value_def is_valid_range_def dest: valid_move_empty)

lemma run_loop_stop: "\<not> game_running st \<Longrightarrow> run_loop cfg draw st = Some st"
  by (subst run_loop_unfold) simp

lemma run_loop_exit:
  assumes run: "game_running st" and inp: "stdin st = print_int (exit_option cfg) @ newline"
  shows "\<exists>st'. run_loop cfg draw st = Some st' \<and> \<not> game_running st' \<and> board st' = board st \<and>
               stdin st' = newline"
proof -
  let ?e = "exit_option cfg"
  let ?st1 = "say st (print_board (board st) @ display_menu cfg)"
  have e: "?e \<in> {5, 6, 7}" by (rule exit_option_cases)
  then have r: "read_int (print_int ?e @ newline) = Parsed ?e newline"
    using newline_not_digit [of "[]"] by (intro read_int_print) (auto simp: int_min_def int_max_def)
  have ch: "get_menu_choice ?st1 = (?e, ?st1\<lparr>stdin := newline\<rparr>)"
    using inp r by (simp add: get_menu_choice_def get_integer_input_def)
  have d: "dispatch cfg draw ?e st'' = Some (quit st'')" for st''
    using e by (auto simp: dispatch_def exit_option_def split: if_splits)
  let ?st2 = "quit (?st1\<lparr>stdin := newline\<rparr>)"
  have g: "game_iteration cfg draw st = Some ?st2"
    using ch d by (simp add: game_iteration_def)
  have nr: "\<not> game_running ?st2" by (simp add: quit_def say_def)
  have "run_loop cfg draw st = run_loop cfg draw ?st2"
    using run g by (subst run_loop_unfold) simp
  also have "\<dots> = Some ?st2" using nr by (rule run_loop_stop)
  finally have "run_loop cfg draw st = Some ?st2" .
  moreover have "board ?st2 = board st \<and> stdin ?st2 = newline" by (simp add: quit_def say_def)
  ultimately show ?thesis using nr by blast
qed

subsection \<open>The shape invariant\<close>


lemma solve_wf: "wf_grid b \<Longrightarrow> solve b = Some (ok, b') \<Longrightarrow> wf_grid b'"
  using search_outcome_solutions [of b] by (auto simp: solve_outcome is_completion_def)

lemma wf_load_cells: "wf_grid g \<Longrightarrow> load_cells g ps s = (ok, b) \<Longrightarrow> wf_grid b"
  by (induction g ps s rule: load_cells.induct) (auto simp: wf_set_cell split: read_result.splits)

lemma wf_load_from_file: "wf_grid g \<Longrightarrow> load_from_file fs name g = (ok, b) \<Longrightarrow> wf_grid b"
  by (auto simp: load_from_file_def split: option.splits intro: wf_load_cells)

lemma generate_puzzle_wf:
  assumes "generate_puzzle draw d s = Some (p, s')"
  shows "wf_grid p"
proof -
  obtain g s1 where gc: "generate_complete draw s = Some (g, s1)"
    and rc: "remove_cells draw g (cells_for d) s1 = Some (p, s')"
    using assms by (auto simp: generate_puzzle_def bind_eq_Some_conv split: prod.splits)
  have "wf_grid g" using generate_complete_sound [OF gc] by auto
  with rc show ?thesis by (auto simp: remove_cells_def intro: remove_loop_wf split: prod.splits)
qed

lemma advanced_wf: "wf_grid b \<Longrightarrow> solve_with_advanced_techniques b = Some (ok, b') \<Longrightarrow> wf_grid b'"
  using advanced_loop_total [of b True] moves_wf by (auto simp: solve_with_advanced_techniques_def)

lemma enter_move_wf: "wf_grid (board st) \<Longrightarrow> wf_grid (board (enter_move st))"
  using enter_move_board [of st] by (auto intro: wf_set_cell)

lemma get_menu_choice_board: "get_menu_choice st = (c, st') \<Longrightarrow> board st' = board st"
  by (auto simp: get_menu_choice_def get_integer_input_def Let_def split: read_result.splits)

lemma reachable_prepend:
  "reachable cfg draw st' r \<Longrightarrow> game_running st \<Longrightarrow> game_iteration cfg draw st = Some st' \<Longrightarrow>
   reachable cfg draw st r"
  by (induction rule: reachable.induct) (auto intro: reachable.intros)

lemma run_loop_reachable:
  assumes ret: "run_loop cfg draw st = Some r"
  shows "reachable cfg draw st r \<and> \<not> game_running r"
proof (rule run_loop.raw_induct [where P = "\<lambda>cfg draw st r. reachable cfg draw st r \<and> \<not> game_running r", OF _ ret])
  fix loop :: "build \<Rightarrow> 'a draw \<Rightarrow> 'a game \<Rightarrow> 'a game option" and cfg draw st r
  assume IH: "\<And>cfg draw st r. loop cfg draw st = Some r \<Longrightarrow> reachable cfg draw st r \<and> \<not> game_running r"
    and eq: "(if game_running st then game_iteration cfg draw st \<bind> loop cfg draw else Some st) = Some r"
  show "reachable cfg draw st r \<and> \<not> game_running r"
  proof (cases "game_running st")
    case False
    with eq show ?thesis by (auto intro: reach_start)
  next
    case True
    with eq obtain st' where st': "game_iteration cfg draw st = Some st'" "loop cfg draw st' = Some r"
      by (auto split: Option.bind_splits)
    with IH [OF st'(2)] True show ?thesis by (blast intro: reachable_prepend)
  qed
qed

subsection \<open>Menu sessions\<close>


lemma newline_space: "c \<in> set newline \<Longrightarrow> is_space c"
  by (simp add: newline_def is_space_def)

lemma read_word_name:
  assumes "file_name_ok name"
  shows "read_word (newline @ name @ newline @ rest) = (name, newline @ rest)"
proof -
  obtain c cs where n: "name = c # cs" "\<not> is_space c" "\<forall>x\<in>set cs. \<not> is_space x"
    using assms by (cases name) (auto simp: file_name_ok_def list_all_iff)
  have "dropWhile is_space (newline @ name @ newline @ rest) = name @ newline @ rest"
    using n by (simp add: dropWhile_append2 newline_space)
  moreover have "takeWhile (\<lambda>c. \<not> is_space c) (name @ newline @ rest) = name"
    using n by (simp add: takeWhile_append2 newline_def is_space_def)
  moreover have "dropWhile (\<lambda>c. \<not> is_space c) (name @ newline @ rest) = newline @ rest"
    using n by (simp add: dropWhile_append2 newline_def is_space_def)
  ultimately show ?thesis by (simp add: read_word_def)
qed

lemma read_int_newline: "read_int (newline @ s) = read_int s"
  using read_int_spaces [of newline s] newline_space by blast

lemma iteration_choice_spaces:
  assumes "stdin st = pre @ print_int k @ newline @ rest" "\<And>c. c \<in> set pre \<Longrightarrow> is_space c"
    "int_min \<le> k" "k \<le> int_max"
  shows "game_iteration cfg draw st =
           dispatch cfg draw k ((say st (print_board (board st) @ display_menu cfg))\<lparr>stdin := newline @ rest\<rparr>)"
proof -
  have "read_int (print_int k @ newline @ rest) = Parsed k (newline @ rest)"
    using assms(3,4) newline_not_digit by (intro read_int_print) auto
  with assms(1,2) show ?thesis
    by (simp add: game_iteration_def get_menu_choice_def get_integer_input_def read_int_spaces)
qed

lemma iteration_choice:
  assumes "stdin st = newline @ print_int k @ newline @ rest" "int_min \<le> k" "k \<le> int_max"
  shows "game_iteration cfg draw st =
           dispatch cfg draw k ((say st (print_board (board st) @ display_menu cfg))\<lparr>stdin := newline @ rest\<rparr>)"
  using assms newline_space by (intro iteration_choice_spaces) auto

lemma say_stdin_update: "(say st t)\<lparr>stdin := x\<rparr> = say (st\<lparr>stdin := x\<rparr>) t"
  by (simp add: say_def)

lemma read_move_newline: "read_move (newline @ s) = read_move s"
  by (simp add: read_move_def read_int_newline)

lemma enter_move_files: "files (enter_move st) = files st \<and> writable (enter_move st) = writable st"
  by (auto simp: enter_move_def Let_def set_value_def split: sum.splits prod.splits if_splits)

lemma iteration_save:
  assumes inp: "stdin st = newline @ print_int 4 @ newline @ name @ newline @ rest"
    and nm: "file_name_ok name" and w: "writable st name"
  shows "\<exists>st'. game_iteration cfg draw st = Some st' \<and> board st' = board st \<and>
              files st' = (files st)(name \<mapsto> board_text (board st)) \<and> stdin st' = newline @ rest \<and>
              writable st' = writable st"
proof -
  have it: "game_iteration cfg draw st =
      dispatch cfg draw 4 ((say st (print_board (board st) @ display_menu cfg))\<lparr>stdin := newline @ name @ newline @ rest\<rparr>)"
    using inp by (intro iteration_choice) (simp_all add: int_min_def int_max_def)
  show ?thesis
    using read_word_name [OF nm, of rest] w
    by (simp add: it dispatch_def save_puzzle_to_file_def save_to_file_def say_def Let_def)
qed

lemma iteration_move:
  assumes inp: "stdin st = newline @ print_int 1 @ newline @ print_int r @ '' '' @ print_int c @ '' '' @ print_int v @ rest"
    and rest: "rest = [] \<or> \<not> is_digit (hd rest)"
    and rng: "1 \<le> r" "r \<le> 9" "1 \<le> c" "c \<le> 9" "1 \<le> v" "v \<le> 9"
  shows "\<exists>st'. game_iteration cfg draw st = Some st' \<and>
              board st' = (if is_valid_move (board st) (r - 1) (c - 1) v
                           then set_cell (board st) (nat (r - 1)) (nat (c - 1)) v else board st) \<and>
              files st' = files st \<and> stdin st' = rest \<and> writable st' = writable st"
proof -
  let ?st = "(say st (print_board (board st) @ display_menu cfg))\<lparr>stdin := newline @ print_int r @ '' '' @ print_int c @ '' '' @ print_int v @ rest\<rparr>"
  have it: "game_iteration cfg draw st = dispatch cfg draw 1 ?st"
    using inp by (intro iteration_choice) (simp_all add: int_min_def int_max_def)
  have d: "dispatch cfg draw 1 ?st = Some (enter_move ?st)" by (simp add: dispatch_def)
  have rm: "read_move (stdin ?st) = Inr (r, c, v, rest)"
  proof -
    have "read_move (print_int r @ '' '' @ print_int c @ '' '' @ print_int v @ rest) = Inr (r, c, v, rest)"
      using enter_move_parsed [of "st\<lparr>stdin := print_int r @ '' '' @ print_int c @ '' '' @ print_int v @ rest\<rparr>"
            r c v rest] rest rng by simp
    then show ?thesis by (simp add: read_move_newline)
  qed
  have e: "board (enter_move ?st) = (if is_valid_move (board ?st) (r - 1) (c - 1) v
            then set_cell (board ?st) (nat (r - 1)) (nat (c - 1)) v else board ?st) \<and> stdin (enter_move ?st) = rest"
    by (rule enter_move_applies [OF rm rng])
  show ?thesis using it d e enter_move_files [of ?st] by simp
qed

lemma iteration_load:
  assumes inp: "stdin st = newline @ print_int 3 @ newline @ name @ newline @ rest"
    and nm: "file_name_ok name" and f: "files st name = Some (board_text b)"
    and wf: "wf_grid b" "wf_grid (board st)"
    and range: "list_all (\<lambda>(i, j). int_min \<le> b ! i ! j \<and> b ! i ! j \<le> int_max) cells"
  shows "\<exists>st'. game_iteration cfg draw st = Some st' \<and> board st' = b \<and> files st' = files st"
proof -
  have it: "game_iteration cfg draw st =
      dispatch cfg draw 3 ((say st (print_board (board st) @ display_menu cfg))\<lparr>stdin := newline @ name @ newline @ rest\<rparr>)"
    using inp by (intro iteration_choice) (simp_all add: int_min_def int_max_def)
  have l: "load_cells (board st) cells (board_text b) = (True, b)" by (rule load_board_text [OF wf range])
  show ?thesis
    using read_word_name [OF nm, of rest] f l
    by (simp add: it dispatch_def load_puzzle_from_file_def load_from_file_def say_def Let_def)
qed

lemma run_loop_step:
  "game_running st \<Longrightarrow> game_iteration cfg draw st = Some st' \<Longrightarrow> run_loop cfg draw st = run_loop cfg draw st'"
  by (subst run_loop_unfold) simp

lemma run_loop_exits:
  assumes run: "game_running st" and inp: "stdin st = pre @ print_int (exit_option cfg) @ newline @ rest"
    and sp: "\<And>c. c \<in> set pre \<Longrightarrow> is_space c"
  shows "\<exists>st'. run_loop cfg draw st = Some st' \<and> \<not> game_running st' \<and> board st' = board st"
proof -
  have e: "exit_option cfg \<in> {5, 6, 7}" by (rule exit_option_cases)
  then have r: "int_min \<le> exit_option cfg" "exit_option cfg \<le> int_max" by (auto simp: int_min_def int_max_def)
  have d: "dispatch cfg draw (exit_option cfg) st'' = Some (quit st'')" for st''
    using e by (auto simp: dispatch_def exit_option_def split: if_splits)
  obtain st' where st': "game_iteration cfg draw st = Some st'" "\<not> game_running st'" "board st' = board st"
    using iteration_choice_spaces [OF inp sp r, of cfg draw] d by (simp add: quit_def say_def)
  then show ?thesis using run_loop_step [OF run st'(1)] run_loop_stop [OF st'(2)] by simp
qed

lemma run_loop_then_exit:
  assumes run: "game_running st" and it: "game_iteration cfg draw st = Some st2" and run2: "game_running st2"
    and inp: "stdin st2 = newline @ print_int (exit_option cfg) @ newline"
  shows "\<exists>st3. run_loop cfg draw st = Some st3 \<and> \<not> game_running st3 \<and> board st3 = board st2"
proof -
  have "stdin st2 = newline @ print_int (exit_option cfg) @ newline @ []" using inp by simp
  from run_loop_exits [OF run2 this newline_space, of draw] run_loop_step [OF run it] show ?thesis by simp
qed

lemma iteration_solve:
  assumes "stdin st = pre @ print_int 2 @ newline @ rest" "\<And>c. c \<in> set pre \<Longrightarrow> is_space c"
    and "solve (board st) = Some (ok, b')"
  shows "\<exists>st'. game_iteration cfg draw st = Some st' \<and> board st' = b' \<and> game_running st' = game_running st \<and>
              stdin st' = newline @ rest"
  using iteration_choice_spaces [OF assms(1,2), of cfg draw] assms(3)
  by (simp add: int_min_def int_max_def dispatch_def solve_automatically_def say_def Let_def)

lemma iteration_advanced:
  assumes "stdin st = pre @ print_int 6 @ newline @ rest" "\<And>c. c \<in> set pre \<Longrightarrow> is_space c"
    and "build_advanced cfg" and "solve_with_advanced_techniques (board st) = Some (ok, b')"
  shows "\<exists>st'. game_iteration cfg draw st = Some st' \<and> board st' = b' \<and> game_running st' = game_running st \<and>
              stdin st' = newline @ rest"
  using iteration_choice_spaces [OF assms(1,2), of cfg draw] assms(3,4)
  by (simp add: int_min_def int_max_def dispatch_def solve_with_advanced_game_def say_def Let_def)

lemma iteration_generate:
  assumes inp: "stdin st = pre @ print_int 5 @ newline @ print_int c @ newline @ rest"
    and sp: "\<And>c. c \<in> set pre \<Longrightarrow> is_space c" and gen: "build_generator cfg"
    and rc: "int_min \<le> c" "c \<le> int_max"
    and gp: "generate_puzzle draw (difficulty_of_choice c) (rng st) = Some (p, s')"
  shows "\<exists>st'. game_iteration cfg draw st = Some st' \<and> board st' = p \<and> rng st' = s' \<and>
              game_running st' = game_running st \<and> stdin st' = newline @ rest"
proof -
  let ?st = "(say st (print_board (board st) @ display_menu cfg))\<lparr>stdin := newline @ print_int c @ newline @ rest\<rparr>"
  have it: "game_iteration cfg draw st = dispatch cfg draw 5 ?st"
    using inp sp by (intro iteration_choice_spaces) (simp_all add: int_min_def int_max_def)
  have r: "read_int (newline @ print_int c @ newline @ rest) = Parsed c (newline @ rest)"
    using rc newline_not_digit by (simp add: read_int_newline read_int_print)
  have gi: "get_integer_input (say ?st t) [] = (True, c, (say ?st t)\<lparr>stdin := newline @ rest\<rparr>)" for t
    using r by (simp add: get_integer_input_def say_def)
  show ?thesis
  proof (cases "c < 1 \<or> 3 < c")
    case True
    then have "difficulty_of_choice c = MEDIUM" by auto
    with True gen gi gp show ?thesis by (simp add: it dispatch_def generate_new_puzzle_def say_def Let_def)
  next
    case False
    with gen gi gp show ?thesis by (simp add: it dispatch_def generate_new_puzzle_def say_def Let_def)
  qed
qed

subsection \<open>The validity invariant\<close>

lemma valid_board_range:
  assumes wf: "wf_grid b" and vb: "is_valid_board b"
  shows "list_all (\<lambda>(i, j). int_min \<le> b ! i ! j \<and> b ! i ! j \<le> int_max) cells"
proof -
  have "int_min \<le> b ! i ! j \<and> b ! i ! j \<le> int_max" if "i < 9" "j < 9" for i j
  proof (cases "b ! i ! j = 0")
    case False
    with vb wf that have "cell_consistent b i j" by (simp add: is_valid_board_iff)
    then show ?thesis by (auto simp: cell_consistent_iff int_min_def int_max_def)
  qed (simp add: int_min_def int_max_def)
  then show ?thesis by (simp add: list_all_cells)
qed

lemma load_keeps_valid:
  assumes sv: "saved_boards_valid fs" and wf: "wf_grid g" and vb: "is_valid_board g"
    and l: "load_from_file fs name g = (ok, b)"
  shows "wf_grid b \<and> is_valid_board b"
proof (cases "fs name")
  case None
  with l wf vb show ?thesis by (simp add: load_from_file_def)
next
  case (Some content)
  with sv obtain b' where b': "content = board_text b'" "wf_grid b'" "is_valid_board b'"
    by (auto simp: saved_boards_valid_def)
  have "load_cells g cells content = (True, b')"
    using load_board_text [OF b'(2) wf valid_board_range [OF b'(2,3)]] b'(1) by simp
  with Some l b' show ?thesis by (simp add: load_from_file_def)
qed

lemma save_keeps_valid:
  assumes "saved_boards_valid fs" "wf_grid b" "is_valid_board b" "save_to_file w fs name b = (ok, fs')"
  shows "saved_boards_valid fs'"
  using assms by (auto simp: save_to_file_def saved_boards_valid_def split: if_splits)

lemma solve_keeps_valid:
  assumes wf: "wf_grid b" and vb: "is_valid_board b" and sv: "solve b = Some (ok, b')"
  shows "wf_grid b' \<and> is_valid_board b'"
proof -
  obtain ok' t where o: "search_outcome b (solutions b) = (ok', t)" "\<not> ok' \<longrightarrow> t = b"
    using search_outcome_solutions [OF wf] by blast
  have eq: "ok' = ok" "t = b'" using sv o(1) by (simp_all add: solve_outcome [OF wf])
  show ?thesis
  proof (cases ok)
    case True
    with sv eq solve_success_valid [OF wf vb, of b'] show ?thesis by simp
  next
    case False
    with o(2) eq wf vb show ?thesis by simp
  qed
qed

lemma generate_puzzle_valid:
  assumes gp: "generate_puzzle draw d s = Some (p, s')"
  shows "wf_grid p \<and> is_valid_board p"
proof -
  obtain g s1 where gc: "generate_complete draw s = Some (g, s1)"
    and rc: "remove_cells draw g (cells_for d) s1 = Some (p, s')"
    using gp by (auto simp: generate_puzzle_def bind_eq_Some_conv split: prod.splits)
  have "wf_grid g" "is_valid_board g" using generate_complete_sound [OF gc] by auto
  from remove_cells_valid [OF this rc] show ?thesis .
qed

lemma advanced_keeps_valid:
  assumes wf: "wf_grid b" and vb: "is_valid_board b"
    and a: "solve_with_advanced_techniques b = Some (ok, b')"
  shows "wf_grid b' \<and> is_valid_board b'"
  using advanced_loop_total [OF wf, of True] vb a moves_wf [OF _ wf]
  by (auto simp: solve_with_advanced_techniques_def)

lemma dispatch_valid:
  assumes wf: "wf_grid (board st)" and vb: "is_valid_board (board st)"
    and sv: "saved_boards_valid (files st)" and d: "dispatch cfg draw choice st = Some st'"
  shows "wf_grid (board st') \<and> is_valid_board (board st') \<and> saved_boards_valid (files st')"
proof -
  have move_case: "wf_grid (board (enter_move st)) \<and> is_valid_board (board (enter_move st))"
    using enter_move_board [of st] enter_move_wf [OF wf] vb valid_move_preserves_valid [OF wf vb] by auto
  have solve_case: "solve_automatically st = Some st' \<Longrightarrow>
      wf_grid (board st') \<and> is_valid_board (board st') \<and> files st' = files st"
    by (auto simp: solve_automatically_def Let_def bind_eq_Some_conv split: prod.splits
             dest: solve_keeps_valid [OF wf vb])
  have gen_case: "generate_new_puzzle draw st = Some st' \<Longrightarrow>
      wf_grid (board st') \<and> is_valid_board (board st') \<and> files st' = files st"
    by (auto simp: generate_new_puzzle_def get_integer_input_def Let_def bind_eq_Some_conv
             split: prod.splits if_splits read_result.splits dest: generate_puzzle_valid)
  have adv_case: "solve_with_advanced_game st = Some st' \<Longrightarrow>
      wf_grid (board st') \<and> is_valid_board (board st') \<and> files st' = files st"
    by (auto simp: solve_with_advanced_game_def Let_def bind_eq_Some_conv split: prod.splits
             dest: advanced_keeps_valid [OF wf vb])
  have load_case: "wf_grid (board (load_puzzle_from_file st)) \<and> is_valid_board (board (load_puzzle_from_file st)) \<and>
      files (load_puzzle_from_file st) = files st"
    by (auto simp: load_puzzle_from_file_def Let_def split: prod.splits dest: load_keeps_valid [OF sv wf vb])
  have save_case: "board (save_puzzle_to_file st) = board st \<and> saved_boards_valid (files (save_puzzle_to_file st))"
    by (auto simp: save_puzzle_to_file_def Let_def split: prod.splits dest: save_keeps_valid [OF sv wf vb])
  show ?thesis
    using d wf vb sv move_case enter_move_files [of st] solve_case gen_case adv_case load_case save_case
    by (auto simp: dispatch_def quit_def split: if_splits)
qed

lemma get_menu_choice_files: "get_menu_choice st = (c, st') \<Longrightarrow> files st' = files st"
  by (auto simp: get_menu_choice_def get_integer_input_def Let_def split: read_result.splits)

lemma reachable_valid:
  "reachable cfg draw st0 st \<Longrightarrow> wf_grid (board st0) \<Longrightarrow> is_valid_board (board st0) \<Longrightarrow>
   saved_boards_valid (files st0) \<Longrightarrow>
   wf_grid (board st) \<and> is_valid_board (board st) \<and> saved_boards_valid (files st)"
proof (induction rule: reachable.induct)
  case (reach_step st0 st st')
  obtain c st'' where m: "get_menu_choice (say st (print_board (board st) @ display_menu cfg)) = (c, st'')"
    by fastforce
  have d: "dispatch cfg draw c st'' = Some st'" using reach_step.hyps(3) m by (simp add: game_iteration_def)
  from reach_step.IH reach_step.prems get_menu_choice_board [OF m] get_menu_choice_files [OF m]
  show ?case by (intro dispatch_valid [OF _ _ _ d]) simp_all
qed simp

subsection \<open>Properties of the game\<close>


lemma new_game_simps:
  "board (new_game input fs w s) = default_puzzle" "game_running (new_game input fs w s)"
  "stdin (new_game input fs w s) = input"
proof -
  have "initialize_default_puzzle sudoku_board = default_puzzle" by code_simp
  then show "board (new_game input fs w s) = default_puzzle" by (simp add: new_game_def)
qed (simp_all add: new_game_def)

lemma default_puzzle_ok: "wf_grid default_puzzle \<and> is_valid_board default_puzzle"
  by code_simp

text \<open>C19: The main loop never ends once standard input is exhausted: getMenuChoice fails,
  returns -1, the default branch prints "Invalid choice" and the loop repeats with the game still
  running, forever.\<close>
theorem run_diverges_at_eof:
  "stdin st = [] \<Longrightarrow> game_running st \<Longrightarrow> run cfg draw st = None"
proof -
  assume eof: "stdin st = []" and r: "game_running st"
  let ?st = "say st (''Welcome to Sudoku Game!'' @ newline @ newline)"
  show ?thesis
  proof (cases "run_loop cfg draw ?st")
    case (Some x)
    from run_loop_eof_none [OF Some] eof r show ?thesis by simp
  qed (simp add: run_def)
qed

theorem run_diverges_at_eof_witness:
  "run full_build lcg_draw (new_game [] Map.empty (\<lambda>_. True) (5::nat)) = None"
  by (rule run_diverges_at_eof [OF new_game_simps(3) new_game_simps(2)])

text \<open>C23: Entering the exit option of the build ends run after one iteration, with the game
  stopped and the board untouched.\<close>
theorem run_exit_stops:
  assumes r: "game_running st" and inp: "stdin st = print_int (exit_option cfg) @ newline"
  shows "\<exists>st'. run cfg draw st = Some st' \<and> \<not> game_running st' \<and> board st' = board st"
proof -
  let ?st = "say st (''Welcome to Sudoku Game!'' @ newline @ newline)"
  obtain st' where "run_loop cfg draw ?st = Some st'" "\<not> game_running st'" "board st' = board ?st"
    using run_loop_exit [of ?st cfg draw] r inp by auto
  then show ?thesis by (auto simp: run_def)
qed

theorem run_exit_stops_witness:
  "\<exists>st'. run full_build lcg_draw (new_game (print_int (exit_option full_build) @ newline) Map.empty (\<lambda>_. True) (5::nat)) =
         Some st' \<and> \<not> game_running st' \<and> board st' = default_puzzle"
proof -
  let ?G = "new_game (print_int (exit_option full_build) @ newline) Map.empty (\<lambda>_. True) (5::nat)"
  have "game_running ?G" by (rule new_game_simps(2))
  moreover have "stdin ?G = print_int (exit_option full_build) @ newline" by (rule new_game_simps(3))
  ultimately have "\<exists>st'. run full_build lcg_draw ?G = Some st' \<and> \<not> game_running st' \<and> board st' = board ?G"
    by (rule run_exit_stops)
  then show ?thesis by (simp only: new_game_simps(1))
qed

text \<open>C20: enterMove reads a row, a column and a value in 1..9 from standard input and places
  the value at (row - 1, column - 1) exactly when isValidMove allows it; otherwise the board is
  unchanged. The three numbers are consumed.\<close>
theorem enter_move_correct:
  assumes "stdin st = print_int r @ '' '' @ print_int c @ '' '' @ print_int v @ rest"
    and "rest = [] \<or> \<not> is_digit (hd rest)"
    and "1 \<le> r" "r \<le> 9" "1 \<le> c" "c \<le> 9" "1 \<le> v" "v \<le> 9"
  shows "board (enter_move st) =
           (if is_valid_move (board st) (r - 1) (c - 1) v then set_cell (board st) (nat (r - 1)) (nat (c - 1)) v
            else board st) \<and> stdin (enter_move st) = rest"
  using enter_move_applies [OF enter_move_parsed [OF assms] assms(3-8)] .

theorem enter_move_correct_witness:
  "board (enter_move (new_game (print_int 1 @ '' '' @ print_int 3 @ '' '' @ print_int 4 @ newline) Map.empty (\<lambda>_. True) (5::nat))) =
   set_cell default_puzzle 0 2 4"
proof -
  let ?G = "new_game (print_int 1 @ '' '' @ print_int 3 @ '' '' @ print_int 4 @ newline) Map.empty (\<lambda>_. True) (5::nat)"
  have v: "is_valid_move default_puzzle 0 2 4" by code_simp
  have h: "newline = [] \<or> \<not> is_digit (hd newline)" using newline_not_digit [of "[]"] by simp
  have s: "stdin ?G = print_int 1 @ '' '' @ print_int 3 @ '' '' @ print_int 4 @ newline" by (rule new_game_simps(3))
  have "board (enter_move ?G) =
          (if is_valid_move (board ?G) (1 - 1) (3 - 1) 4 then set_cell (board ?G) (nat (1 - 1)) (nat (3 - 1)) 4
           else board ?G)"
    using enter_move_correct [OF s h] by simp
  then show ?thesis using v by (simp only: new_game_simps(1)) simp
qed

text \<open>C21: Whatever is typed, enterMove keeps a well-formed valid board well formed and valid,
  and its only possible change is one valid move.\<close>
theorem enter_move_keeps_valid:
  assumes wf: "wf_grid (board st)" and vb: "is_valid_board (board st)"
  shows "wf_grid (board (enter_move st)) \<and> is_valid_board (board (enter_move st)) \<and>
         (board (enter_move st) = board st \<or>
          (\<exists>r c v. is_valid_move (board st) (int r) (int c) v \<and> board (enter_move st) = set_cell (board st) r c v))"
proof -
  have d: "board (enter_move st) = board st \<or>
          (\<exists>r c v. is_valid_move (board st) (int r) (int c) v \<and> board (enter_move st) = set_cell (board st) r c v)"
    by (rule enter_move_board)
  have "is_valid_board (board (enter_move st))"
  proof (cases "board (enter_move st) = board st")
    case True
    with vb show ?thesis by simp
  next
    case False
    with d obtain r c v where "is_valid_move (board st) (int r) (int c) v"
        "board (enter_move st) = set_cell (board st) r c v" by blast
    with valid_move_preserves_valid [OF wf vb] show ?thesis by simp
  qed
  with d enter_move_wf [OF wf] show ?thesis by blast
qed

theorem enter_move_keeps_valid_witness:
  "is_valid_board (board (enter_move (new_game (''5 5 5'' @ newline) Map.empty (\<lambda>_. True) (0::nat))))"
proof -
  have "wf_grid (board (new_game (''5 5 5'' @ newline) Map.empty (\<lambda>_. True) (0::nat)))"
    and "is_valid_board (board (new_game (''5 5 5'' @ newline) Map.empty (\<lambda>_. True) (0::nat)))"
    using default_puzzle_ok by (simp_all only: new_game_simps(1))
  from enter_move_keeps_valid [OF this] show ?thesis by (rule conjunct1 [OF conjunct2])
qed

text \<open>C22: As long as every file the game can load holds a board saved from a valid board,
  every state the game reaches from its constructor, through any sequence of menu iterations
  (moves, solving, loading, saving, generating, propagation), shows a well-formed board that obeys
  the Sudoku rules, and every file still holds such a saved board.\<close>
theorem game_invariant:
  assumes "reachable cfg draw (new_game input fs w s) st" and "saved_boards_valid fs"
  shows "wf_grid (board st) \<and> is_valid_board (board st) \<and> saved_boards_valid (files st)"
proof -
  have "wf_grid (board (new_game input fs w s)) \<and> is_valid_board (board (new_game input fs w s))"
    using default_puzzle_ok by (simp only: new_game_simps(1))
  moreover have "saved_boards_valid (files (new_game input fs w s))"
    using assms(2) by (simp add: new_game_def)
  ultimately show ?thesis using reachable_valid [OF assms(1)] by blast
qed

theorem game_invariant_witness:
  "is_valid_board (board (new_game [] (Map.empty(''saved'' \<mapsto> board_text default_puzzle)) (\<lambda>_. True) (0::nat))) \<and>
   saved_boards_valid (files (new_game [] (Map.empty(''saved'' \<mapsto> board_text default_puzzle)) (\<lambda>_. True) (0::nat)))"
proof -
  have s: "saved_boards_valid (Map.empty(''saved'' \<mapsto> board_text default_puzzle))"
    using default_puzzle_ok by (auto simp: saved_boards_valid_def)
  have r: "reachable full_build lcg_draw
      (new_game [] (Map.empty(''saved'' \<mapsto> board_text default_puzzle)) (\<lambda>_. True) (0::nat))
      (new_game [] (Map.empty(''saved'' \<mapsto> board_text default_puzzle)) (\<lambda>_. True) (0::nat))"
    by (rule reach_start)
  from game_invariant [OF r s] show ?thesis by (simp only: conj_assoc)
qed

text \<open>C24: From the menu, saving the board to a file (option 4), entering a move (option 1)
  and loading the same file (option 3) takes three iterations: the move changes the board
  exactly when it is valid, and the load brings back the board as it was saved.\<close>
theorem save_move_load_restores:
  assumes inp: "stdin st = newline @ print_int 4 @ newline @ name @ newline @ print_int 1 @ newline @
                  print_int r @ '' '' @ print_int c @ '' '' @ print_int v @ newline @
                  print_int 3 @ newline @ name @ newline @ rest"
    and nm: "file_name_ok name" and w: "writable st name" and wf: "wf_grid (board st)"
    and range: "list_all (\<lambda>(i, j). int_min \<le> board st ! i ! j \<and> board st ! i ! j \<le> int_max) cells"
    and rng: "1 \<le> r" "r \<le> 9" "1 \<le> c" "c \<le> 9" "1 \<le> v" "v \<le> 9"
  shows "\<exists>st1 st2 st3. game_iteration cfg draw st = Some st1 \<and> game_iteration cfg draw st1 = Some st2 \<and>
           game_iteration cfg draw st2 = Some st3 \<and>
           board st2 = (if is_valid_move (board st) (r - 1) (c - 1) v
                        then set_cell (board st) (nat (r - 1)) (nat (c - 1)) v else board st) \<and>
           board st3 = board st \<and> files st3 name = Some (board_text (board st))"
proof -
  obtain st1 where s1: "game_iteration cfg draw st = Some st1" "board st1 = board st"
      "files st1 = (files st)(name \<mapsto> board_text (board st))"
      "stdin st1 = newline @ print_int 1 @ newline @ print_int r @ '' '' @ print_int c @ '' '' @ print_int v @
                   newline @ print_int 3 @ newline @ name @ newline @ rest"
    using iteration_save [OF inp nm w, of cfg draw] by auto
  have nd: "newline @ print_int 3 @ newline @ name @ newline @ rest = [] \<or>
            \<not> is_digit (hd (newline @ print_int 3 @ newline @ name @ newline @ rest))"
    using newline_not_digit by blast
  obtain st2 where s2: "game_iteration cfg draw st1 = Some st2"
      "board st2 = (if is_valid_move (board st1) (r - 1) (c - 1) v
                    then set_cell (board st1) (nat (r - 1)) (nat (c - 1)) v else board st1)"
      "files st2 = files st1" "stdin st2 = newline @ print_int 3 @ newline @ name @ newline @ rest"
    using iteration_move [OF s1(4) nd rng, of cfg draw] by auto
  have wf2: "wf_grid (board st2)"
    using s2(2) s1(2) wf by (simp add: wf_set_cell)
  have f2: "files st2 name = Some (board_text (board st))" using s2(3) s1(3) by simp
  obtain st3 where s3: "game_iteration cfg draw st2 = Some st3" "board st3 = board st" "files st3 = files st2"
    using iteration_load [OF s2(4) nm f2 wf wf2 range, of cfg draw] by auto
  show ?thesis using s1 s2 s3 f2 by auto
qed


theorem save_move_load_restores_witness:
  "\<exists>st1 st2 st3.
     game_iteration full_build lcg_draw
       (new_game (newline @ print_int 4 @ newline @ ''f'' @ newline @ print_int 1 @ newline @
                  print_int 1 @ '' '' @ print_int 3 @ '' '' @ print_int 4 @ newline @
                  print_int 3 @ newline @ ''f'' @ newline @ []) Map.empty (\<lambda>_. True) (0::nat)) = Some st1 \<and>
     game_iteration full_build lcg_draw st1 = Some st2 \<and> game_iteration full_build lcg_draw st2 = Some st3 \<and>
     board st3 = default_puzzle"
proof -
  let ?G = "new_game (newline @ print_int 4 @ newline @ ''f'' @ newline @ print_int 1 @ newline @
                  print_int 1 @ '' '' @ print_int 3 @ '' '' @ print_int 4 @ newline @
                  print_int 3 @ newline @ ''f'' @ newline @ []) Map.empty (\<lambda>_. True) (0::nat)"
  have nm: "file_name_ok ''f''" by (simp add: file_name_ok_def is_space_def)
  have w: "writable ?G ''f''" by (simp add: new_game_def)
  have wf: "wf_grid (board ?G)" using default_puzzle_ok by (simp add: new_game_simps(1))
  have r: "list_all (\<lambda>(i, j). int_min \<le> default_puzzle ! i ! j \<and> default_puzzle ! i ! j \<le> int_max) cells"
    by code_simp
  then have range: "list_all (\<lambda>(i, j). int_min \<le> board ?G ! i ! j \<and> board ?G ! i ! j \<le> int_max) cells"
    by (simp only: new_game_simps(1))
  obtain st1 st2 st3 where "game_iteration full_build lcg_draw ?G = Some st1"
      "game_iteration full_build lcg_draw st1 = Some st2" "game_iteration full_build lcg_draw st2 = Some st3"
      "board st3 = board ?G"
    using save_move_load_restores [OF new_game_simps(3) nm w wf range, of full_build lcg_draw] by auto
  moreover have "board ?G = default_puzzle" by (rule new_game_simps(1))
  ultimately show ?thesis by (intro exI [of _ st1] exI [of _ st2] exI [of _ st3]) simp
qed

text \<open>C25: enterMove on input that does not start with a number prints the "three
  integers" error, discards the rest of the line and leaves the board unchanged.\<close>
theorem enter_move_bad_input:
  assumes inp: "stdin st = c # rest" and c: "\<not> is_digit c" "\<not> is_space c" "c \<noteq> CHR ''-''" "c \<noteq> CHR ''+''"
  shows "board (enter_move st) = board st \<and> stdin (enter_move st) = ignore_line (c # rest) \<and>
         stdout (enter_move st) =
           stdout st @ ''Enter row (1-9), column (1-9), and value (1-9): '' @
           ''Invalid input. Please enter three integers.'' @ newline @ newline"
proof -
  have "read_move (c # rest) = Inl (c # rest)" using read_int_junk [OF c] by (simp add: read_move_def)
  with inp show ?thesis by (simp add: enter_move_def say_def Let_def)
qed

theorem enter_move_bad_input_witness:
  "board (enter_move (new_game (CHR ''x'' # '' 1 2'' @ newline @ ''7'') Map.empty (\<lambda>_. True) (0::nat))) = default_puzzle \<and>
   stdin (enter_move (new_game (CHR ''x'' # '' 1 2'' @ newline @ ''7'') Map.empty (\<lambda>_. True) (0::nat))) = ''7''"
proof -
  let ?G = "new_game (CHR ''x'' # '' 1 2'' @ newline @ ''7'') Map.empty (\<lambda>_. True) (0::nat)"
  have c: "\<not> is_digit (CHR ''x'')" "\<not> is_space (CHR ''x'')" "CHR ''x'' \<noteq> CHR ''-''" "CHR ''x'' \<noteq> CHR ''+''"
    by (simp_all add: is_digit_def is_space_def)
  note e3 = enter_move_bad_input [OF new_game_simps(3) c]
  have e1: "board (enter_move ?G) = board ?G" by (rule conjunct1 [OF e3])
  have e2: "stdin (enter_move ?G) = ignore_line (CHR ''x'' # '' 1 2'' @ newline @ ''7'')"
    by (rule conjunct1 [OF conjunct2 [OF e3]])
  have "ignore_line (CHR ''x'' # '' 1 2'' @ newline @ ''7'') = ''7''" by (simp add: ignore_line_def newline_def)
  with e1 e2 new_game_simps(1) show ?thesis by simp
qed

end
