(* ===== verification/Mersenne.thy ===== *)
theory Mersenne
  imports Generator "HOL-Library.Word"
begin

text \<open>
  The engine behind \<open>SudokuGenerator::rng\<close>: \<open>std::mt19937\<close>, the Mersenne Twister
  \<open>mersenne_twister_engine\<close> of the C++ standard ([rand.eng.mers]) with word size 32, state
  size 624, shift 397, mask bits 31, twist constant 0x9908b0df and the tempering constants of
  \<open>mt19937\<close>. It is library code and is modelled from the standard. The state is the sequence
  of the last 624 values \<open>X\<^sub>i\<^sub>-\<^sub>6\<^sub>2\<^sub>4 .. X\<^sub>i\<^sub>-\<^sub>1\<close>; one call of \<open>operator()\<close> computes
  the next value by the twist transition, shifts it into the state and returns it tempered.
  \<open>SudokuGenerator.cpp\<close> constructs the engine from the steady clock's tick count.
  The property shown here is the one the program fixes: the clock seeding keeps only the low
  32 bits of the tick count, so there are exactly \<open>2\<^sup>3\<^sup>2\<close> different engines.
\<close>

unbundle bit_operations_syntax

type_synonym mt_state = "32 word list"

primrec seed_fill :: "nat \<Rightarrow> nat \<Rightarrow> 32 word \<Rightarrow> 32 word list" where
  "seed_fill 0 i x = []"
| "seed_fill (Suc k) i x =
     (let y = 1812433253 * (x XOR drop_bit 30 x) + of_nat i in y # seed_fill k (Suc i) y)"

definition mt_seed :: "32 word \<Rightarrow> mt_state" where
  "mt_seed v = v # seed_fill 623 1 v"

definition twist :: "32 word \<Rightarrow> 32 word \<Rightarrow> 32 word \<Rightarrow> 32 word" where
  "twist x0 x1 xm =
     (let y = (x0 AND 0x80000000) OR (x1 AND 0x7FFFFFFF)
      in xm XOR drop_bit 1 y XOR (if bit y 0 then 0x9908B0DF else 0))"

definition mt_transition :: "mt_state \<Rightarrow> 32 word" where
  "mt_transition xs = twist (xs ! 0) (xs ! 1) (xs ! 397)"

definition mt_temper :: "32 word \<Rightarrow> 32 word" where
  "mt_temper z =
     (let z1 = z XOR (drop_bit 11 z AND 0xFFFFFFFF);
          z2 = z1 XOR (push_bit 7 z1 AND 0x9D2C5680);
          z3 = z2 XOR (push_bit 15 z2 AND 0xEFC60000)
      in z3 XOR drop_bit 18 z3)"

definition mt_next :: "mt_state \<Rightarrow> 32 word \<times> mt_state" where
  "mt_next xs = (let x = mt_transition xs in (mt_temper x, tl xs @ [x]))"

definition clock_rng :: "int \<Rightarrow> mt_state" where
  "clock_rng count = mt_seed (word_of_int count)"

definition mt_seeded :: "nat \<Rightarrow> mt_state" where
  "mt_seeded seed = mt_seed (of_nat seed)"

subsection \<open>Seeding from the clock\<close>

lemma hd_mt_seed: "hd (mt_seed v) = v"
  by (simp add: mt_seed_def)

text \<open>C32: SudokuGenerator's engine is seeded from the steady clock's tick count converted to a
  32-bit word: two tick counts give the same engine exactly when they agree modulo 2^32, and
  there are exactly 2^32 different engines the generator can start from.\<close>
theorem clock_rng_low_bits:
  "(clock_rng c = clock_rng d) = (c mod 2 ^ 32 = d mod 2 ^ 32) \<and> card (range clock_rng) = 2 ^ 32"
proof
  have inj: "inj mt_seed" by (metis injI hd_mt_seed)
  then show "(clock_rng c = clock_rng d) = (c mod 2 ^ 32 = d mod 2 ^ 32)"
    by (simp add: clock_rng_def inj_eq word_of_int_eq_iff take_bit_eq_mod)
  have "range clock_rng = range mt_seed"
  proof
    show "range clock_rng \<subseteq> range mt_seed" by (auto simp: clock_rng_def)
    show "range mt_seed \<subseteq> range clock_rng"
    proof
      fix x assume "x \<in> range mt_seed"
      then obtain v where "x = mt_seed v" by blast
      then have "x = clock_rng (uint v)" by (simp add: clock_rng_def)
      then show "x \<in> range clock_rng" by blast
    qed
  qed
  then show "card (range clock_rng) = 2 ^ 32" using inj by (simp add: card_image card_word)
qed

end
