(* ===== verification/Spec2Isabelle.thy ===== *)
theory Spec2Isabelle
  imports Game Mersenne
begin

text \<open>
  \<^bold>\<open>Verification of the Sudoku engine and game.\<close>

  \<^bold>\<open>The program.\<close> A console Sudoku game (src/). \<open>SudokuBoard\<close> stores a 9x9
  \<open>std::vector<std::vector<int>>\<close> and checks moves against the row, column and box rules;
  \<open>SudokuSolver\<close> fills a board by depth-first backtracking; \<open>SudokuGenerator\<close> builds a
  random complete board (three diagonal boxes shuffled, the rest solved) and carves cells
  out of it while a bounded solution counter still reports a unique solution;
  \<open>SudokuAdvancedChecks\<close> solves by naked and hidden singles without guessing;
  \<open>SudokuGame\<close> drives everything from a text menu on standard input and output, and
  loads and saves boards as text files.

  \<^bold>\<open>Theories.\<close>
  \<^item> \<open>Sudoku_Prelude\<close>: the grid type (\<open>int list list\<close>), the row-major cell order
    \<open>cells\<close> of every nested loop, and list lemmas shared by all components.
  \<^item> \<open>Board\<close> (SudokuBoard.cpp): \<open>initialize_board\<close>, \<open>is_valid_move\<close> and its three
    helpers, \<open>set_value\<close>, \<open>get_value\<close>, \<open>is_empty\<close>, \<open>is_full\<close>, \<open>clear\<close>; the raw
    write \<open>getBoard()[r][c] = v\<close> is \<open>set_cell\<close>; \<open>wf_grid\<close> is the 9x9 shape invariant.
  \<^item> \<open>Search\<close>: the specification of solving: \<open>is_completion b s\<close> (s fills b and obeys
    the rules) and \<open>solutions\<close>, the list of all completions in the search order of the code.
  \<^item> \<open>Solver\<close> (SudokuSolver.cpp): \<open>solve\<close>, \<open>solve_loop\<close> (the digit loop with the
    recursive call inlined), \<open>find_empty_cell\<close>, \<open>is_valid_board\<close>.
  \<^item> \<open>Counter\<close> (SudokuGenerator.cpp, countSolutions, hasUniqueSolution).
  \<^item> \<open>Generator\<close> (the rest of SudokuGenerator.cpp): \<open>generate_puzzle\<close>,
    \<open>generate_complete\<close>, \<open>fill_diagonal_box\<close>, \<open>remove_cells\<close>, \<open>set_seed\<close>.
  \<^item> \<open>Propagation\<close> (SudokuAdvancedChecks.cpp): every technique, the placeholders with their
    loops, \<open>apply_all_techniques\<close> and the driver \<open>solve_with_advanced_techniques\<close>.
  \<^item> \<open>Board_IO\<close> (SudokuBoard.cpp, printBoard, loadFromFile, saveToFile): character streams,
    C++ formatted integer input and output, a file system as a map from names to contents.
  \<^item> \<open>Game\<close> (SudokuGame.cpp): the game record (board, running flag, standard input and
    output, files, random state), one function per method, the main loop \<open>run_loop\<close>,
    and lemmas that run one menu iteration for each option on a given input.
  \<^item> \<open>Mersenne\<close> (the engine \<open>std::mt19937\<close> of SudokuGenerator::rng, modelled from the
    C++ standard): seeding \<open>mt_seed\<close>, the twist \<open>mt_transition\<close>, tempering
    \<open>mt_temper\<close>, one call \<open>mt_next\<close>; \<open>clock_rng\<close> is the static initialisation
    from the steady clock (SudokuGenerator.cpp:8), \<open>mt_seeded\<close> the seeding of setSeed.
    The state is the last 624 words.
  \<^item> this theory: properties that span components, stated as whole runs of the game.

  \<^bold>\<open>State and effects.\<close> Methods that mutate the board return the new board (and the
  progress or success flag the C++ returns). The static \<open>std::mt19937\<close> is an explicit
  state \<open>'s\<close> threaded through the generator and the game; \<open>std::shuffle\<close> is the
  Fisher-Yates loop over an abstract draw function \<open>'s draw\<close>, so every theorem holds for any
  random source. The engine itself is the \<open>Mersenne\<close> theory on \<open>32 word\<close>, where the
  seeding multiplication wraps around as in the standard. Integers are \<open>int\<close>: the values the engine computes stay within 0..81, and
  the only place where the 32-bit range matters, formatted input, clamps explicitly.

  \<^bold>\<open>Partiality.\<close> The searches (\<open>solve_loop\<close>, \<open>count_loop\<close>), the retry loop of
  \<open>generate_complete\<close>, the propagation driver \<open>advanced_loop\<close> and the game loop
  \<open>run_loop\<close> have no bound in the code and are \<open>partial_function (option)\<close>; \<open>None\<close> is
  non-termination. Termination is proved where it holds: the searches and the propagation
  driver return on every well-formed board (induction on the number of empty cells), the
  generator returns on its first attempt when the diagonal fill can be completed; the game
  loop provably does not return once input is exhausted.

  \<^bold>\<open>What is proved.\<close> Solver: \<open>solve\<close> refines \<open>solutions\<close> (it returns the first
  completion, or fails exactly when there is none) and \<open>isValidBoard\<close> is the Sudoku rule.
  Counter: the count is \<open>min m (number of completions)\<close>. Generator: correct diagonal fill,
  full valid complete boards, puzzles with exactly one completion and the required number of
  empty cells. Propagation: candidates are exactly the legal digits; singles place only
  forced digits by valid moves; the driver terminates, is idempotent and keeps the set of
  completions. Files: save then load is the identity; a short file fails with the cells read
  so far overwritten and the others unchanged (at end of file the extraction assigns nothing),
  a malformed token zeroes its cell. Game: moves keep the board valid; in every reachable
  state the board is 9x9 and valid as long as the files hold boards saved from valid boards
  (\<open>saved_boards_valid\<close>), which every save preserves; exit ends the loop, end of input
  makes it diverge. Engine: the clock seeding keeps only the low 32 bits of the tick count
  (exactly 2^32 engines). Across components: whole runs
  of the game that solve the default puzzle by either solver end with its solution; a run
  that generates a puzzle and then solves it ends with the board the generator completed.

  \<^bold>\<open>Not modelled.\<close> How \<open>std::uniform_int_distribution\<close> and \<open>std::shuffle\<close>
  turn engine outputs into indices: the standard fixes only the resulting distribution, the
  algorithm is the library's, so the generator stays generic in the draw function and is not
  instantiated with the engine, and no property of the engine beyond its seeding is claimed. The
  default arguments of countSolutions and generatePuzzle are \<open>count_solutions_default\<close> and
  \<open>generate_puzzle_default\<close>; \<open>getBoard\<close> is the board itself. The
  declarations-only headers (SudokuSolver.hpp, SudokuAdvancedChecks.hpp and the class
  declarations of SudokuGame.hpp and SudokuGenerator.hpp, which contain no code); I/O errors
  of the console streams other than end of input and malformed numbers.
\<close>

definition default_solution :: grid where
  "default_solution =
     [[5, 3, 4, 6, 7, 8, 9, 1, 2], [6, 7, 2, 1, 9, 5, 3, 4, 8], [1, 9, 8, 3, 4, 2, 5, 6, 7],
      [8, 5, 9, 7, 6, 1, 4, 2, 3], [4, 2, 6, 8, 5, 3, 7, 9, 1], [7, 1, 3, 9, 2, 4, 8, 5, 6],
      [9, 6, 1, 5, 3, 7, 2, 8, 4], [2, 8, 7, 4, 1, 9, 6, 3, 5], [3, 4, 5, 2, 8, 6, 1, 7, 9]]"


text \<open>C26: setValue keeps a board valid: if the board passes isValidBoard before the
  call, it passes it after the call, whether the write happened or not.\<close>

theorem set_value_preserves_valid:
  "wf_grid b \<Longrightarrow> is_valid_board b \<Longrightarrow> set_value b row col v = (ok, b') \<Longrightarrow> is_valid_board b'"
proof -
  assume wf: "wf_grid b" and vb: "is_valid_board b" and sv: "set_value b row col v = (ok, b')"
  show "is_valid_board b'"
  proof (cases "is_valid_move b row col v")
    case True
    then have "is_valid_move b (int (nat row)) (int (nat col)) v" by (rule valid_move_nat)
    from valid_move_preserves_valid [OF wf vb this] True sv show ?thesis
      by (simp add: set_value_def)
  next
    case False
    with sv vb show ?thesis by (simp add: set_value_def)
  qed
qed

theorem set_value_preserves_valid_witness:
  "wf_grid sudoku_board \<and> is_valid_board sudoku_board \<and>
   set_value sudoku_board 0 0 5 = (True, set_cell sudoku_board 0 0 5) \<and>
   is_valid_board (set_cell sudoku_board 0 0 5)"
proof -
  have vb: "is_valid_board sudoku_board" by code_simp
  have sv: "set_value sudoku_board 0 0 5 = (True, set_cell sudoku_board 0 0 5)" by code_simp
  show ?thesis using set_value_preserves_valid [OF wf_sudoku_board vb sv] wf_sudoku_board vb sv
    by simp
qed

lemma default_advanced: "solve_with_advanced_techniques default_puzzle = Some (True, default_solution)"
  by code_simp

lemma default_completions: "is_completion default_puzzle s = (s = default_solution)"
proof -
  have wf: "wf_grid default_puzzle" and vb: "is_valid_board default_puzzle" using default_puzzle_ok by simp_all
  obtain b' where b': "advanced_loop True default_puzzle = Some b'"
      "is_valid_board b' \<and> (\<forall>s. is_completion b' s = is_completion default_puzzle s)" "moves default_puzzle b'"
    using advanced_loop_total [OF wf, of True] vb by blast
  have fs: "is_full default_solution" by code_simp
  have "Some (is_full b', b') = Some (True, default_solution)"
    using default_advanced b'(1) fs by (simp add: solve_with_advanced_techniques_def)
  then have eq: "b' = default_solution" by simp
  with fs have full: "is_full b'" by simp
  have wf': "wf_grid b'" using moves_wf [OF b'(3) wf] .
  from b'(2) completion_full [OF wf' full] eq show ?thesis by simp
qed

lemma default_solve: "solve default_puzzle = Some (True, default_solution)"
proof (rule solve_unique)
  show "wf_grid default_puzzle" using default_puzzle_ok by simp
  show "is_completion default_puzzle default_solution" using default_completions by simp
  show "t = default_solution" if "is_completion default_puzzle t" for t
    using that default_completions by simp
qed

lemma new_game_rng: "rng (new_game input fs w s) = s"
  by (simp add: new_game_def)

text \<open>C29: A whole session on the default puzzle: the player chooses "Solve automatically" and
  then the exit option; run returns, the game is stopped and the board is the solution.\<close>
theorem session_solve_default:
  "\<exists>st. run cfg draw (new_game (print_int 2 @ newline @ print_int (exit_option cfg) @ newline) fs w s) = Some st \<and>
        \<not> game_running st \<and> board st = default_solution"
proof -
  let ?st1 = "say (new_game (print_int 2 @ newline @ print_int (exit_option cfg) @ newline) fs w s)
                (''Welcome to Sudoku Game!'' @ newline @ newline)"
  have i1: "stdin ?st1 = [] @ print_int 2 @ newline @ (print_int (exit_option cfg) @ newline)"
    by (simp add: new_game_simps)
  have sv: "solve (board ?st1) = Some (True, default_solution)" using default_solve by (simp add: new_game_simps)
  obtain st2 where st2: "game_iteration cfg draw ?st1 = Some st2" "board st2 = default_solution"
      "game_running st2" "stdin st2 = newline @ print_int (exit_option cfg) @ newline"
    using iteration_solve [OF i1 _ sv, of cfg draw] by (auto simp: new_game_simps new_game_rng)
  obtain st3 where "run_loop cfg draw ?st1 = Some st3" "\<not> game_running st3" "board st3 = board st2"
    using run_loop_then_exit [OF _ st2(1,3,4)] by (auto simp: new_game_simps)
  with st2(2) show ?thesis by (auto simp: run_def)
qed

text \<open>C30: In a build with the advanced solver, choosing "Solve with advanced techniques" on the
  default puzzle and then the exit option ends the session with the solution on the board.\<close>
theorem session_advanced_default:
  assumes adv: "build_advanced cfg"
  shows "\<exists>st. run cfg draw (new_game (print_int 6 @ newline @ print_int (exit_option cfg) @ newline) fs w s) = Some st \<and>
        \<not> game_running st \<and> board st = default_solution"
proof -
  let ?st1 = "say (new_game (print_int 6 @ newline @ print_int (exit_option cfg) @ newline) fs w s)
                (''Welcome to Sudoku Game!'' @ newline @ newline)"
  have i1: "stdin ?st1 = [] @ print_int 6 @ newline @ (print_int (exit_option cfg) @ newline)"
    by (simp add: new_game_simps)
  have sv: "solve_with_advanced_techniques (board ?st1) = Some (True, default_solution)"
    using default_advanced by (simp add: new_game_simps)
  obtain st2 where st2: "game_iteration cfg draw ?st1 = Some st2" "board st2 = default_solution"
      "game_running st2" "stdin st2 = newline @ print_int (exit_option cfg) @ newline"
    using iteration_advanced [OF i1 _ adv sv, of draw] by (auto simp: new_game_simps new_game_rng)
  obtain st3 where "run_loop cfg draw ?st1 = Some st3" "\<not> game_running st3" "board st3 = board st2"
    using run_loop_then_exit [OF _ st2(1,3,4)] by (auto simp: new_game_simps)
  with st2(2) show ?thesis by (auto simp: run_def)
qed

theorem session_advanced_default_witness:
  "\<exists>st. run full_build lcg_draw (new_game (print_int 6 @ newline @ print_int 7 @ newline) Map.empty (\<lambda>_. True) 5) =
        Some st \<and> \<not> game_running st \<and> board st = default_solution"
proof -
  have "build_advanced full_build" "exit_option full_build = 7" by (simp_all add: full_build_def exit_option_def)
  with session_advanced_default [of full_build lcg_draw Map.empty "\<lambda>_. True" 5] show ?thesis by simp
qed

text \<open>C31: Generating and then solving a puzzle gives back the generated board: whenever
  generateComplete returns a board g, a session that chooses "Generate new puzzle" (with any
  difficulty answer), then "Solve automatically", then the exit option ends with g on the board.
  The puzzle the generator leaves has exactly one completion, g, and the backtracking solver finds it.\<close>
theorem session_generate_solve:
  assumes gc: "generate_complete draw s = Some (g, s1)" and gen: "build_generator cfg"
    and rc: "int_min \<le> c" "c \<le> int_max"
  shows "\<exists>st. run cfg draw (new_game (print_int 5 @ newline @ print_int c @ newline @ print_int 2 @ newline @
                                  print_int (exit_option cfg) @ newline) fs w s) = Some st \<and>
        \<not> game_running st \<and> board st = g"
proof -
  let ?rest = "print_int 2 @ newline @ print_int (exit_option cfg) @ newline"
  let ?st1 = "say (new_game (print_int 5 @ newline @ print_int c @ newline @ ?rest) fs w s)
                (''Welcome to Sudoku Game!'' @ newline @ newline)"
  obtain p s' where p: "generate_puzzle draw (difficulty_of_choice c) s = Some (p, s')" "wf_grid p"
      "is_completion p g" "\<exists>!t. is_completion p t"
    using generate_puzzle_spec [OF gc, of "difficulty_of_choice c"] by blast
  have i1: "stdin ?st1 = [] @ print_int 5 @ newline @ print_int c @ newline @ ?rest"
    by (simp add: new_game_simps)
  have gp: "generate_puzzle draw (difficulty_of_choice c) (rng ?st1) = Some (p, s')"
    using p(1) by (simp add: new_game_rng)
  obtain st2 where st2: "game_iteration cfg draw ?st1 = Some st2" "board st2 = p" "game_running st2"
      "stdin st2 = newline @ ?rest"
    using iteration_generate [OF i1 _ gen rc gp] by (auto simp: new_game_simps)
  have sv: "solve (board st2) = Some (True, g)"
    using solve_unique [OF p(2,3)] p(3,4) st2(2) by blast
  obtain st3 where st3: "game_iteration cfg draw st2 = Some st3" "board st3 = g" "game_running st3"
      "stdin st3 = newline @ print_int (exit_option cfg) @ newline"
    using iteration_solve [OF st2(4) newline_space sv, of cfg draw] st2(3) by auto
  obtain st4 where "run_loop cfg draw st2 = Some st4" "\<not> game_running st4" "board st4 = board st3"
    using run_loop_then_exit [OF st2(3) st3(1,3,4)] by blast
  moreover have "run_loop cfg draw ?st1 = run_loop cfg draw st2"
    using st2(1) by (intro run_loop_step) (auto simp: new_game_simps)
  ultimately show ?thesis using st3(2) by (auto simp: run_def)
qed

theorem session_generate_solve_witness:
  "\<exists>st. run full_build lcg_draw (new_game (print_int 5 @ newline @ print_int 1 @ newline @ print_int 2 @ newline @
                                       print_int 7 @ newline) Map.empty (\<lambda>_. True) 5) = Some st \<and>
        \<not> game_running st \<and> board st = hd (solutions (fst (fill_diagonals lcg_draw sudoku_board 5)))"
proof -
  have gc: "generate_complete lcg_draw 5 =
        Some (hd (solutions (fst (fill_diagonals lcg_draw sudoku_board 5))), 29)"
    using generate_complete_first [of lcg_draw 5] lcg_diagonals by auto
  have "build_generator full_build" "exit_option full_build = 7" by (simp_all add: full_build_def exit_option_def)
  with session_generate_solve [OF gc, of full_build 1 Map.empty "\<lambda>_. True"] show ?thesis
    by (simp add: int_min_def int_max_def)
qed

end
